theory Spec2Isabelle
  imports Complex_Main "HOL-Library.Word"
begin

section \<open>The ALAN-2022 compiler: a shallow embedding\<close>

text \<open>
  The development follows the four units of the compiler: the scanner
  (\<^verbatim>\<open>scanner.c\<close>), the hash table and the symbol table built on it
  (\<^verbatim>\<open>hashtable.c\<close>, \<^verbatim>\<open>symboltable.c\<close>), the code generator
  (\<^verbatim>\<open>codegen.c\<close>) and the parser (\<^verbatim>\<open>alanc.c\<close>).  The C globals of a unit
  are the fields of a record that every function takes and returns.  A call of
  \<^verbatim>\<open>leprintf\<close> prints the global source position and a message and ends the
  process: it is the error value \<open>Fatal\<close>, and every function that can reach
  one returns a sum.
\<close>

subsection \<open>Tokens, positions and errors\<close>

text \<open>
  \<^verbatim>\<open>token.h\<close> and \<^verbatim>\<open>error.h\<close> are not among the sources.  The token kinds are the
  ones the scanner and the parser name; \<^verbatim>\<open>MAX_ID_LENGTH\<close> is 32.
\<close>

datatype TokenType =
    TOKEN_EOF | TOKEN_ID | TOKEN_NUMBER | TOKEN_STRING
  | TOKEN_ARRAY | TOKEN_BEGIN | TOKEN_BOOLEAN | TOKEN_CALL | TOKEN_DO
  | TOKEN_ELSE | TOKEN_ELSIF | TOKEN_END | TOKEN_FALSE | TOKEN_FUNCTION
  | TOKEN_GET | TOKEN_IF | TOKEN_INTEGER | TOKEN_LEAVE | TOKEN_NOT
  | TOKEN_PUT | TOKEN_RELAX | TOKEN_SOURCE | TOKEN_THEN | TOKEN_TO
  | TOKEN_TRUE | TOKEN_WHILE
  | TOKEN_EQUAL | TOKEN_GREATER_EQUAL | TOKEN_GREATER_THAN
  | TOKEN_LESS_EQUAL | TOKEN_LESS_THAN | TOKEN_NOT_EQUAL
  | TOKEN_MINUS | TOKEN_OR | TOKEN_PLUS
  | TOKEN_AND | TOKEN_DIVIDE | TOKEN_MULTIPLY | TOKEN_REMAINDER
  | TOKEN_CLOSE_BRACKET | TOKEN_CLOSE_PARENTHESIS | TOKEN_COMMA
  | TOKEN_CONCATENATE | TOKEN_GETS | TOKEN_OPEN_BRACKET
  | TOKEN_OPEN_PARENTHESIS | TOKEN_SEMICOLON

record SourcePos =
  line :: int
  col :: int

text \<open>
  The string a string token points to.  The scanner stores the characters of
  the literal at the indices \<open>0, 1, ...\<close> of a heap block (\<open>stored\<close>),
  reallocates the block to \<open>allocated\<close> bytes and then writes the terminator
  at index \<open>nul_at\<close>, which is \<open>allocated + 1\<close>: the terminator is outside the
  block and the byte at index \<open>allocated\<close> is never written.  The three fields
  say what the scanner has done; what \<^verbatim>\<open>%s\<close> reads from the pointer is not
  determined by them, and nothing below speaks of it.
\<close>

record CString =
  stored :: string
  allocated :: nat
  nul_at :: nat

record Token =
  type :: TokenType
  val :: int
  lexeme :: string
  string :: CString

datatype error =
    Fatal SourcePos string
  | Expected string TokenType
  | Undefined string
  | Diverges string
  | OutOfFuel

definition MAX_ID_LENGTH :: nat where
  "MAX_ID_LENGTH = 32"

definition INT_MAX :: int where
  "INT_MAX = 2147483647"

text \<open>The value a C \<^verbatim>\<open>int\<close> holds after a computation whose exact result is \<open>x\<close>.\<close>

definition int32 :: "int \<Rightarrow> int" where
  "int32 x = (x + 2147483648) mod 4294967296 - 2147483648"

subsection \<open>Characters and formatting\<close>

definition isdigit :: "char \<Rightarrow> bool" where
  "isdigit c = (48 \<le> (of_char c :: nat) \<and> (of_char c :: nat) \<le> 57)"

definition isalpha :: "char \<Rightarrow> bool" where
  "isalpha c = ((65 \<le> (of_char c :: nat) \<and> (of_char c :: nat) \<le> 90)
              \<or> (97 \<le> (of_char c :: nat) \<and> (of_char c :: nat) \<le> 122))"

definition isprint :: "char \<Rightarrow> bool" where
  "isprint c = (32 \<le> (of_char c :: nat) \<and> (of_char c :: nat) \<le> 126)"

fun digit_char :: "nat \<Rightarrow> char" where
  "digit_char n = char_of (48 + n mod 10)"

fun show_nat_fuel :: "nat \<Rightarrow> nat \<Rightarrow> string" where
  "show_nat_fuel 0 n = [digit_char n]"
| "show_nat_fuel (Suc k) n =
     (if n < 10 then [digit_char n] else show_nat_fuel k (n div 10) @ [digit_char n])"

text \<open>\<^verbatim>\<open>%d\<close> of a number.\<close>

definition show_int :: "int \<Rightarrow> string" where
  "show_int i = (if i < 0 then CHR ''-'' # show_nat_fuel (nat (- i)) (nat (- i))
                 else show_nat_fuel (nat i) (nat i))"

text \<open>\<^verbatim>\<open>strcmp\<close>: negative, zero or positive.\<close>

fun strcmp :: "string \<Rightarrow> string \<Rightarrow> int" where
  "strcmp [] [] = 0"
| "strcmp [] (y # ys) = - 1"
| "strcmp (x # xs) [] = 1"
| "strcmp (x # xs) (y # ys) =
     (if x = y then strcmp xs ys else int (of_char x) - int (of_char y))"

subsection \<open>The scanner\<close>

text \<open>
  \<open>src_file\<close> is what \<^verbatim>\<open>fgetc\<close> has not read yet, \<open>ch\<close> the lookahead
  character (\<open>None\<close> is \<^verbatim>\<open>EOF\<close>).  \<open>position\<close> is the global of the error unit
  that \<^verbatim>\<open>leprintf\<close> prints.  Line and column are C \<^verbatim>\<open>int\<close>s: an increment or
  decrement of one of them is taken through \<open>int32\<close>.
\<close>

record scanner =
  src_file :: string
  ch :: "char option"
  column_number :: int
  position :: SourcePos

definition leprintf :: "scanner \<Rightarrow> string \<Rightarrow> error" where
  "leprintf s msg = Fatal (position s) msg"

definition set_col :: "int \<Rightarrow> scanner \<Rightarrow> scanner" where
  "set_col c s = s\<lparr>position := (position s)\<lparr>col := c\<rparr>\<rparr>"

definition next_char :: "scanner \<Rightarrow> scanner" where
  "next_char s =
     (let last_read = ch s in
      case src_file s of
        [] \<Rightarrow> s\<lparr>ch := None\<rparr>
      | c # cs \<Rightarrow>
          (let s1 = s\<lparr>ch := Some c, src_file := cs\<rparr>;
               s2 = (if last_read = Some (CHR 0x0A)
                     then s1\<lparr>position := (position s1)\<lparr>line := int32 (line (position s1) + 1)\<rparr>,
                             column_number := 1\<rparr>
                     else s1)
           in if last_read \<noteq> Some (CHR 0x0A)
              then s2\<lparr>column_number := int32 (column_number s2 + 1)\<rparr> else s2))"

definition init_scanner :: "string \<Rightarrow> scanner" where
  "init_scanner in_file =
     next_char \<lparr>src_file = in_file, ch = None, column_number = 0,
                position = \<lparr>line = 1, col = 0\<rparr>\<rparr>"

text \<open>What is left to read: every loop of the scanner decreases it.\<close>

definition rem_input :: "scanner \<Rightarrow> nat" where
  "rem_input s = 2 * length (src_file s) + (case ch s of None \<Rightarrow> 0 | Some _ \<Rightarrow> 1)"

lemma rem_input_next_char_le: "rem_input (next_char s) \<le> rem_input s"
  by (cases "src_file s"; cases "ch s") (simp_all add: rem_input_def next_char_def Let_def)

lemma rem_input_next_char_less: "ch s \<noteq> None \<Longrightarrow> rem_input (next_char s) < rem_input s"
  by (cases "src_file s"; cases "ch s") (simp_all add: rem_input_def next_char_def Let_def)

lemma rem_input_set_col [simp]: "rem_input (set_col c s) = rem_input s"
  by (simp add: rem_input_def set_col_def)

lemma ch_set_col [simp]: "ch (set_col c s) = ch s"
  by (simp add: set_col_def)

subsubsection \<open>Numbers\<close>

function process_number_loop :: "int \<Rightarrow> scanner \<Rightarrow> error + (int \<times> scanner)" where
  "process_number_loop v s =
     (case ch s of
        None \<Rightarrow> Inr (v, s)
      | Some c \<Rightarrow>
          if isdigit c then
            (let d = int (of_char c) - 48 in
             if v \<le> (INT_MAX - d) div 10
             then process_number_loop (int32 (10 * v + d)) (next_char s)
             else Inl (leprintf s ''number too large''))
          else Inr (v, s))"
  by pat_completeness auto
termination
  by (relation "measure (\<lambda>(v, s). rem_input s)") (auto intro: rem_input_next_char_less)

declare process_number_loop.simps [simp del]


definition process_number :: "Token \<Rightarrow> scanner \<Rightarrow> error + (Token \<times> scanner)" where
  "process_number token s =
     (case process_number_loop 0 s of
        Inl e \<Rightarrow> Inl e
      | Inr (v, s') \<Rightarrow> Inr (token\<lparr>val := v, type := TOKEN_NUMBER\<rparr>, s'))"

subsubsection \<open>Strings\<close>

definition MAX_INITIAL_STRING_LEN :: nat where
  "MAX_INITIAL_STRING_LEN = 1024"

definition illegal_escapes :: "char list" where
  "illegal_escapes = [CHR ''a'', CHR ''b'', CHR ''f'', CHR ''r'', CHR ''v'', CHR 0x27, CHR ''?'']"

text \<open>What \<^verbatim>\<open>string[i] = ch\<close> stores: the character, or the byte \<^verbatim>\<open>(char) EOF\<close>.\<close>

definition char_of_ch :: "char option \<Rightarrow> char" where
  "char_of_ch x = (case x of None \<Rightarrow> CHR 0xFF | Some c \<Rightarrow> c)"

text \<open>
  The loop of \<^verbatim>\<open>process_string\<close>.  \<open>str\<close> is \<^verbatim>\<open>string[0..i-1]\<close>, so \<open>i\<close> is its
  length; \<open>nstring\<close> is the size of the block \<^verbatim>\<open>string\<close> points to, a
  \<^verbatim>\<open>size_t\<close> of 64 bits that \<^verbatim>\<open>grow\<close> doubles at the end of an iteration that
  has filled the block.  A store \<^verbatim>\<open>string[i] = ...\<close> with \<open>i\<close> not below
  \<open>nstring\<close> is outside the block: C gives it no meaning, and the model ends
  with \<open>Undefined\<close>.  The second store of an escape is such a store when the
  escape starts at the last index of the block, since the size is tested only
  after it.  \<^verbatim>\<open>malloc\<close> and \<^verbatim>\<open>realloc\<close> are taken to succeed.
\<close>

definition outside_block :: error where
  "outside_block = Undefined ''process_string: store outside the block of the string''"

definition grow :: "nat \<Rightarrow> nat \<Rightarrow> nat" where
  "grow i nstring = (if i \<ge> nstring then (nstring * 2) mod 18446744073709551616 else nstring)"

function process_string_loop :: "string \<Rightarrow> nat \<Rightarrow> scanner \<Rightarrow> error + (string \<times> nat \<times> scanner)" where
  "process_string_loop str nstring s =
     (case ch s of
        None \<Rightarrow> Inr (str, nstring, s)
      | Some c \<Rightarrow>
          if c = CHR 0x22 then Inr (str, nstring, s)
          else if \<not> isprint c then
            Inl (leprintf (set_col (column_number s) s)
                   (''non-printable character (ASCII #'' @ show_int (int (of_char c)) @ '') in string''))
          else if c = CHR 0x5C then
            (let s1 = next_char s;
                 s2 = set_col (int32 (column_number s1 - 1)) s1
             in if ch s2 \<in> Some ` set illegal_escapes then
                  Inl (leprintf s2 (''illegal escape code '' @ [CHR 0x27, CHR 0x5C, char_of_ch (ch s2), CHR 0x27]
                                     @ '' in string''))
                else if length str \<ge> nstring \<or> length str + 1 \<ge> nstring then Inl outside_block
                else
                  (let str1 = str @ [CHR 0x5C];
                       str2 = str1 @ [char_of_ch (ch s2)];
                       s3 = next_char s2
                   in process_string_loop str2 (grow (length str2) nstring) s3))
          else if length str \<ge> nstring then Inl outside_block
          else
            (let str2 = str @ [c];
                 s3 = next_char s
             in process_string_loop str2 (grow (length str2) nstring) s3))"
  by pat_completeness auto
termination
proof (relation "measure (\<lambda>(str, nstring, s). rem_input s)", goal_cases)
  case 1
  show ?case by simp
next
  case (2 str nstring s c s1 s2 str1 str2 s3)
  have "rem_input s1 < rem_input s"
    using 2 by (simp add: rem_input_next_char_less)
  moreover have "rem_input s3 \<le> rem_input s1"
    using 2 rem_input_next_char_le [of s2] by simp
  ultimately show ?case by simp
next
  case (3 str nstring s c str2 s3)
  then show ?case by (simp add: rem_input_next_char_less)
qed

declare process_string_loop.simps [simp del]


definition process_string :: "Token \<Rightarrow> scanner \<Rightarrow> error + (Token \<times> scanner)" where
  "process_string token s =
     (case process_string_loop [] MAX_INITIAL_STRING_LEN s of
        Inl e \<Rightarrow> Inl e
      | Inr (str, nstring, s') \<Rightarrow>
          (let i = length str;
               i1 = (if i = 0 then i + 1 else i)
           in if ch s' = None then Inl (leprintf s' ''string not closed'')
              else Inr (token\<lparr>string := \<lparr>stored = str, allocated = i1, nul_at = i1 + 1\<rparr>,
                               type := TOKEN_STRING\<rparr>,
                        next_char s')))"

subsubsection \<open>Words\<close>

definition reserved :: "(string \<times> TokenType) list" where
  "reserved =
     [(''and'', TOKEN_AND), (''array'', TOKEN_ARRAY), (''begin'', TOKEN_BEGIN),
      (''boolean'', TOKEN_BOOLEAN), (''call'', TOKEN_CALL), (''do'', TOKEN_DO),
      (''else'', TOKEN_ELSE), (''elsif'', TOKEN_ELSIF), (''end'', TOKEN_END),
      (''false'', TOKEN_FALSE), (''function'', TOKEN_FUNCTION), (''get'', TOKEN_GET),
      (''if'', TOKEN_IF), (''integer'', TOKEN_INTEGER),
      (''leave'', TOKEN_LEAVE), (''not'', TOKEN_NOT), (''or'', TOKEN_OR),
      (''put'', TOKEN_PUT), (''relax'', TOKEN_RELAX), (''rem'', TOKEN_REMAINDER),
      (''source'', TOKEN_SOURCE), (''then'', TOKEN_THEN), (''to'', TOKEN_TO),
      (''true'', TOKEN_TRUE), (''while'', TOKEN_WHILE)]"

definition NUM_RESERVED_WORDS :: int where
  "NUM_RESERVED_WORDS = int (length reserved)"

definition is_word_char :: "char \<Rightarrow> bool" where
  "is_word_char c = (isalpha c \<or> isdigit c \<or> c = CHR ''_'')"

function process_word_loop :: "string \<Rightarrow> scanner \<Rightarrow> error + (string \<times> scanner)" where
  "process_word_loop lx s =
     (case ch s of
        None \<Rightarrow> Inr (lx, s)
      | Some c \<Rightarrow>
          if is_word_char c then
            (if length lx < MAX_ID_LENGTH
             then process_word_loop (lx @ [c]) (next_char s)
             else Inl (leprintf s ''identifier too long''))
          else Inr (lx, s))"
  by pat_completeness auto
termination
  by (relation "measure (\<lambda>(lx, s). rem_input s)") (auto intro: rem_input_next_char_less)

declare process_word_loop.simps [simp del]


text \<open>The binary search of \<^verbatim>\<open>process_word\<close>: the index found, or \<open>- 1\<close>.\<close>

function reserved_search :: "string \<Rightarrow> int \<Rightarrow> int \<Rightarrow> int" where
  "reserved_search lx low high =
     (if low \<le> high then
        (let mid = low + (high - low) div 2;
             c = strcmp lx (fst (reserved ! nat mid))
         in if c = 0 then mid
            else reserved_search lx (if c > 0 then mid + 1 else low)
                                        (if c < 0 then mid - 1 else high))
      else - 1)"
  by pat_completeness auto
termination
  by (relation "measure (\<lambda>(lx, low, high). nat (high - low + 1))") auto

declare reserved_search.simps [simp del]


definition process_word :: "Token \<Rightarrow> scanner \<Rightarrow> error + (Token \<times> scanner)" where
  "process_word token s =
     (case process_word_loop [] (set_col (column_number s) s) of
        Inl e \<Rightarrow> Inl e
      | Inr (lx, s') \<Rightarrow>
          (let index = reserved_search lx 0 (NUM_RESERVED_WORDS - 1)
           in if index = - 1 then Inr (token\<lparr>type := TOKEN_ID, lexeme := lx\<rparr>, s')
              else Inr (token\<lparr>type := snd (reserved ! nat index)\<rparr>, s')))"

subsubsection \<open>Comments\<close>

text \<open>
  \<^verbatim>\<open>skip_comment\<close> is entered with the opening brace as lookahead and calls
  itself for a brace it meets inside the comment.  At the end of the file it
  sets \<open>position\<close> to the \<open>start_pos\<close> of the call that is running and fails.
\<close>

function skip_comment :: "scanner \<Rightarrow> error + scanner"
  and skip_comment_loop :: "SourcePos \<Rightarrow> scanner \<Rightarrow> error + scanner" where
  "skip_comment s =
     (let start_pos = \<lparr>line = line (position s), col = column_number s\<rparr>
      in skip_comment_loop start_pos (next_char s))"
| "skip_comment_loop start_pos s =
     (if ch s \<noteq> Some (CHR ''}'') \<and> ch s \<noteq> None then
        (if ch s = Some (CHR ''{'') then
           (case skip_comment s of
              Inl e \<Rightarrow> Inl e
            | Inr s' \<Rightarrow> skip_comment_loop start_pos (next_char s'))
         else skip_comment_loop start_pos (next_char s))
      else if ch s = None then Inl (leprintf (s\<lparr>position := start_pos\<rparr>) ''comment not closed'')
      else Inr s)"
  by pat_completeness auto

lemma skip_comment_rem_dom:
  "skip_comment_skip_comment_loop_dom (Inl s) \<Longrightarrow> skip_comment s = Inr s' \<Longrightarrow>
     rem_input s' \<le> rem_input s \<and> ch s' = Some (CHR ''}'')"
  "skip_comment_skip_comment_loop_dom (Inr (sp, t)) \<Longrightarrow> skip_comment_loop sp t = Inr t' \<Longrightarrow>
     rem_input t' \<le> rem_input t \<and> ch t' = Some (CHR ''}'')"
proof (induction s and sp t arbitrary: s' and t' rule: skip_comment_skip_comment_loop.pinduct)
  case (1 s)
  then show ?case
    using rem_input_next_char_le [of s]
    by (fastforce simp: skip_comment.psimps Let_def)
next
  case (2 start_pos s)
  show ?case
  proof (cases "ch s \<noteq> Some (CHR ''}'') \<and> ch s \<noteq> None")
    case False
    then show ?thesis using 2(1,5) by (auto simp: skip_comment_loop.psimps split: if_splits)
  next
    case outer: True
    show ?thesis
    proof (cases "ch s = Some (CHR ''{'')")
      case True
      then obtain s1 where s1: "skip_comment s = Inr s1"
        and r: "skip_comment_loop start_pos (next_char s1) = Inr t'"
        using 2(1,5) outer by (auto simp: skip_comment_loop.psimps split: sum.splits)
      have "rem_input s1 \<le> rem_input s" using 2(2) [OF outer True s1] by simp
      moreover have "rem_input t' \<le> rem_input (next_char s1) \<and> ch t' = Some (CHR ''}'')"
        using 2(3) [OF outer True s1 r] .
      ultimately show ?thesis using rem_input_next_char_le [of s1] by simp
    next
      case False
      then have r: "skip_comment_loop start_pos (next_char s) = Inr t'"
        using 2(1,5) outer by (auto simp: skip_comment_loop.psimps)
      show ?thesis using 2(4) [OF outer False r] rem_input_next_char_le [of s] by simp
    qed
  qed
qed

lemma skip_comment_total: "All skip_comment_skip_comment_loop_dom"
proof (relation "measure (\<lambda>x. case x of
           Inl s \<Rightarrow> 3 * rem_input s + (if ch s = None then 3 else 1)
         | Inr (sp, s) \<Rightarrow> 3 * rem_input s + 2)", goal_cases)
  case 1
  show ?case by simp
next
  case (2 s start_pos)
  show ?case
    using rem_input_next_char_le [of s] rem_input_next_char_less [of s]
    by (cases "ch s = None") auto
next
  case (3 start_pos s)
  then show ?case by simp
next
  case (4 start_pos s s')
  then have "rem_input s' \<le> rem_input s \<and> ch s' = Some (CHR ''}'')"
    using skip_comment_rem_dom(1) by blast
  then show ?case using rem_input_next_char_less [of s'] by simp
next
  case (5 start_pos s)
  then show ?case using rem_input_next_char_less [of s] by simp
qed

termination skip_comment
  by (rule skip_comment_total)

declare skip_comment.simps [simp del] skip_comment_loop.simps [simp del]

lemma skip_comment_rem:
  "skip_comment s = Inr s' \<Longrightarrow> rem_input s' \<le> rem_input s \<and> ch s' = Some (CHR ''}'')"
  by (rule skip_comment_rem_dom(1) [OF spec [OF skip_comment_total]])

subsubsection \<open>Tokens\<close>

function skip_whitespace :: "scanner \<Rightarrow> scanner" where
  "skip_whitespace s =
     (if ch s = Some (CHR '' '') \<or> ch s = Some (CHR 0x09) \<or> ch s = Some (CHR 0x0A)
      then skip_whitespace (next_char s) else s)"
  by pat_completeness auto
termination
  by (relation "measure rem_input") (auto intro: rem_input_next_char_less)

declare skip_whitespace.simps [simp del]


lemma rem_input_skip_whitespace: "rem_input (skip_whitespace s) \<le> rem_input s"
proof (induction s rule: skip_whitespace.induct)
  case (1 s)
  show ?case
  proof (cases "ch s = Some (CHR '' '') \<or> ch s = Some (CHR 0x09) \<or> ch s = Some (CHR 0x0A)")
    case True
    then have "skip_whitespace s = skip_whitespace (next_char s)"
      by (subst skip_whitespace.simps) simp
    then show ?thesis
      using 1 [OF True] rem_input_next_char_le [of s] by simp
  next
    case False
    then have "skip_whitespace s = s"
      by (subst skip_whitespace.simps) simp
    then show ?thesis by simp
  qed
qed

definition illegal_character :: "char \<Rightarrow> string" where
  "illegal_character c =
     ''illegal character '' @ [CHR 0x27, c, CHR 0x27] @ '' (ASCII #'' @ show_int (int (of_char c)) @ '')''"

definition single :: "Token \<Rightarrow> TokenType \<Rightarrow> scanner \<Rightarrow> error + (Token \<times> scanner)" where
  "single token ty s = Inr (token\<lparr>type := ty\<rparr>, next_char s)"

text \<open>
  The branches of \<^verbatim>\<open>get_token\<close> that do not skip a comment: \<open>c\<close> is the
  lookahead character of \<open>s\<close>.
\<close>

definition get_token_switch :: "Token \<Rightarrow> scanner \<Rightarrow> char \<Rightarrow> error + (Token \<times> scanner)" where
  "get_token_switch token s c =
     (if isalpha c \<or> c = CHR ''_'' then process_word token s
      else if isdigit c then process_number token s
      else if c = CHR 0x22 then
        process_string token (next_char (set_col (column_number s) s))
      else if c = CHR ''('' then single token TOKEN_OPEN_PARENTHESIS s
      else if c = CHR '')'' then single token TOKEN_CLOSE_PARENTHESIS s
      else if c = CHR ''}'' then Inl (leprintf s (illegal_character c))
      else if c = CHR ''['' then single token TOKEN_OPEN_BRACKET s
      else if c = CHR '']'' then single token TOKEN_CLOSE_BRACKET s
      else if c = CHR ''+'' then single token TOKEN_PLUS s
      else if c = CHR ''-'' then single token TOKEN_MINUS s
      else if c = CHR ''/'' then single token TOKEN_DIVIDE s
      else if c = CHR ''*'' then single token TOKEN_MULTIPLY s
      else if c = CHR '';'' then single token TOKEN_SEMICOLON s
      else if c = CHR '','' then single token TOKEN_COMMA s
      else if c = CHR ''.'' then single token TOKEN_CONCATENATE s
      else if c = CHR '':'' then
        (let s1 = next_char s
         in if ch s1 = Some (CHR ''='') then single token TOKEN_GETS s1
            else Inl (leprintf s1 (illegal_character c)))
      else if c = CHR ''<'' then
        (let s1 = next_char s
         in if ch s1 = Some (CHR '' '') then single token TOKEN_LESS_THAN s1
            else if ch s1 = Some (CHR ''>'') then single token TOKEN_NOT_EQUAL s1
            else if ch s1 = Some (CHR ''='') then single token TOKEN_LESS_EQUAL s1
            else Inr (token\<lparr>type := TOKEN_LESS_THAN\<rparr>, s1))
      else if c = CHR ''>'' then
        (let s1 = next_char s
         in if ch s1 = Some (CHR '' '') then single token TOKEN_GREATER_THAN s1
            else if ch s1 = Some (CHR ''='') then single token TOKEN_GREATER_EQUAL s1
            else Inr (token\<lparr>type := TOKEN_GREATER_THAN\<rparr>, s1))
      else if c = CHR ''='' then single token TOKEN_EQUAL s
      else Inl (leprintf s (illegal_character c)))"

function get_token :: "Token \<Rightarrow> scanner \<Rightarrow> error + (Token \<times> scanner)" where
  "get_token token s0 =
     (let sw = skip_whitespace s0;
          s = set_col (column_number sw) sw
      in case ch s of
           None \<Rightarrow> Inr (token\<lparr>type := TOKEN_EOF\<rparr>, s)
         | Some c \<Rightarrow>
             if c = CHR ''{'' then
               (case skip_comment s of
                  Inl e \<Rightarrow> Inl e
                | Inr s' \<Rightarrow> get_token token (next_char s'))
             else get_token_switch token s c)"
  by pat_completeness auto
termination
proof (relation "measure (\<lambda>(token, s). rem_input s)", goal_cases)
  case 1
  show ?case by simp
next
  case (2 token s0 sw s c s')
  have "rem_input s \<le> rem_input s0"
    using 2 rem_input_skip_whitespace [of s0] by simp
  moreover have "rem_input s' \<le> rem_input s \<and> ch s' = Some (CHR ''}'')"
    using 2 skip_comment_rem by blast
  ultimately show ?case
    using rem_input_next_char_less [of s'] by simp
qed

declare get_token.simps [simp del]

subsubsection \<open>Notions the properties of the scanner are stated with\<close>

text \<open>
  The global \<^verbatim>\<open>Token token\<close> of the parser before the first call of
  \<^verbatim>\<open>get_token\<close>: static storage, all zero.
\<close>

definition initial_token :: Token where
  "initial_token = \<lparr>type = TOKEN_EOF, val = 0, lexeme = [],
                     string = \<lparr>stored = [], allocated = 0, nul_at = 0\<rparr>\<rparr>"

text \<open>The parser's pulling of \<open>n\<close> tokens, one call of \<^verbatim>\<open>get_token\<close> each.\<close>

fun get_tokens :: "nat \<Rightarrow> Token \<Rightarrow> scanner \<Rightarrow> error + (Token \<times> scanner)" where
  "get_tokens 0 token s = Inr (token, s)"
| "get_tokens (Suc n) token s =
     (case get_token token s of
        Inl e \<Rightarrow> Inl e
      | Inr (token', s') \<Rightarrow> get_tokens n token' s')"

definition newlines :: "string \<Rightarrow> nat" where
  "newlines cs = length (filter (\<lambda>c. c = CHR 0x0A) cs)"

text \<open>The characters of the file \<open>cs\<close> that \<^verbatim>\<open>fgetc\<close> has returned so far.\<close>

definition consumed :: "string \<Rightarrow> scanner \<Rightarrow> string" where
  "consumed cs s = take (length cs - length (src_file s)) cs"

text \<open>The characters not scanned yet: the lookahead and the unread rest.\<close>

definition pending :: "scanner \<Rightarrow> string" where
  "pending s = (case ch s of None \<Rightarrow> [] | Some c \<Rightarrow> c # src_file s)"

definition scan_inv :: "string \<Rightarrow> scanner \<Rightarrow> bool" where
  "scan_inv cs s =
     (\<exists>pre. cs = pre @ src_file s
        \<and> (ch s = None \<and> src_file s = [] \<or> pre \<noteq> [] \<and> ch s = Some (last pre))
        \<and> line (position s) = int32 (1 + int (newlines (butlast pre))))"

text \<open>
  The value of a decimal numeral, as the specification has it: the digits
  \<open>ds\<close> written after a numeral of value \<open>v\<close>.
\<close>

fun decimal :: "int \<Rightarrow> string \<Rightarrow> int" where
  "decimal v [] = v"
| "decimal v (c # cs) = decimal (10 * v + (int (of_char c) - 48)) cs"

text \<open>
  Comment skipping with an explicit stack instead of recursion: \<open>inner\<close> is
  the position of the opening brace of the comment being skipped, \<open>outer\<close>
  the positions of the braces of the comments around it, the nearest first.
  The result is the stack at the end of the file, or the state at the brace
  that closes the last comment of the stack.
\<close>

function comment_stack :: "SourcePos \<Rightarrow> SourcePos list \<Rightarrow> scanner \<Rightarrow> (SourcePos \<times> SourcePos list) + scanner" where
  "comment_stack inner outer s =
     (case ch s of
        None \<Rightarrow> Inl (inner, outer)
      | Some c \<Rightarrow>
          if c = CHR ''}'' then
            (case outer of
               [] \<Rightarrow> Inr s
             | r # rs \<Rightarrow> comment_stack r rs (next_char s))
          else if c = CHR ''{'' then
            comment_stack \<lparr>line = line (position s), col = column_number s\<rparr> (inner # outer) (next_char s)
          else comment_stack inner outer (next_char s))"
  by pat_completeness auto
termination
  by (relation "measure (\<lambda>(inner, outer, s). rem_input s)") (auto intro: rem_input_next_char_less)

declare comment_stack.simps [simp del]

subsection \<open>Value types and identifier properties\<close>

text \<open>
  Modelled from the spec: \<^verbatim>\<open>valtypes.h\<close> is not among the sources.  A \<^verbatim>\<open>ValType\<close>
  is a bitfield with orthogonal flags: the bases boolean and integer, the array
  flag and the callable flag; a procedure has the callable flag alone.
\<close>

record ValType =
  array_bit :: bool
  boolean_bit :: bool
  integer_bit :: bool
  callable_bit :: bool

definition TYPE_NONE :: ValType where
  "TYPE_NONE = \<lparr>array_bit = False, boolean_bit = False, integer_bit = False, callable_bit = False\<rparr>"

definition TYPE_BOOLEAN :: ValType where
  "TYPE_BOOLEAN = TYPE_NONE\<lparr>boolean_bit := True\<rparr>"

definition TYPE_INTEGER :: ValType where
  "TYPE_INTEGER = TYPE_NONE\<lparr>integer_bit := True\<rparr>"

definition TYPE_CALLABLE :: ValType where
  "TYPE_CALLABLE = TYPE_NONE\<lparr>callable_bit := True\<rparr>"

definition IS_ARRAY_TYPE :: "ValType \<Rightarrow> bool" where
  "IS_ARRAY_TYPE t = array_bit t"

definition IS_BOOLEAN_TYPE :: "ValType \<Rightarrow> bool" where
  "IS_BOOLEAN_TYPE t = boolean_bit t"

definition IS_INTEGER_TYPE :: "ValType \<Rightarrow> bool" where
  "IS_INTEGER_TYPE t = integer_bit t"

definition IS_CALLABLE_TYPE :: "ValType \<Rightarrow> bool" where
  "IS_CALLABLE_TYPE t = callable_bit t"

definition IS_ARRAY :: "ValType \<Rightarrow> bool" where
  "IS_ARRAY t = (IS_ARRAY_TYPE t \<and> \<not> IS_CALLABLE_TYPE t)"

definition IS_VARIABLE :: "ValType \<Rightarrow> bool" where
  "IS_VARIABLE t = (\<not> IS_CALLABLE_TYPE t)"

definition SET_AS_ARRAY :: "ValType \<Rightarrow> ValType" where
  "SET_AS_ARRAY t = t\<lparr>array_bit := True\<rparr>"

definition SET_AS_CALLABLE :: "ValType \<Rightarrow> ValType" where
  "SET_AS_CALLABLE t = t\<lparr>callable_bit := True\<rparr>"

definition SET_RETURN_TYPE :: "ValType \<Rightarrow> ValType" where
  "SET_RETURN_TYPE t = t\<lparr>callable_bit := False\<rparr>"

text \<open>
  The record an \<^verbatim>\<open>IDprop *\<close> points to; its field \<^verbatim>\<open>type\<close> is \<open>vtype\<close> here.
  \<^verbatim>\<open>params\<close> is \<open>None\<close> for the null pointer.
\<close>

record IDprop =
  vtype :: ValType
  offset :: nat
  nparams :: nat
  params :: "ValType list option"

text \<open>The helper \<^verbatim>\<open>idprop\<close> of the parser, which allocates the record.\<close>

definition mk_idprop :: "ValType \<Rightarrow> nat \<Rightarrow> nat \<Rightarrow> ValType list option \<Rightarrow> IDprop" where
  "mk_idprop t off n ps = \<lparr>vtype = t, offset = off, nparams = n, params = ps\<rparr>"

subsection \<open>The code generator\<close>

text \<open>
  \<^verbatim>\<open>codegen.h\<close> is not among the sources.  The opcodes are the entries of the
  table \<^verbatim>\<open>instruction_set\<close>, which \<^verbatim>\<open>gen_1\<close> indexes by opcode, in the order of
  the table; the array types are the ones \<^verbatim>\<open>java_types\<close> names, from
  \<^verbatim>\<open>T_BOOLEAN\<close> on.
\<close>

datatype Bytecode =
    JVM_ALOAD | JVM_ARETURN | JVM_ASTORE | JVM_GETSTATIC | JVM_GOTO | JVM_IADD
  | JVM_IALOAD | JVM_IAND | JVM_IASTORE | JVM_IDIV | JVM_IFEQ | JVM_IF_ICMPEQ
  | JVM_IF_ICMPGE | JVM_IF_ICMPGT | JVM_IF_ICMPLE | JVM_IF_ICMPLT | JVM_IF_ICMPNE
  | JVM_ILOAD | JVM_IMUL | JVM_INEG | JVM_INVOKESTATIC | JVM_INVOKEVIRTUAL | JVM_IOR
  | JVM_ISTORE | JVM_ISUB | JVM_IREM | JVM_IRETURN | JVM_IXOR | JVM_LDC
  | JVM_NEWARRAY | JVM_RETURN | JVM_SWAP

datatype JVMatype =
  T_BOOLEAN | T_CHAR | T_FLOAT | T_DOUBLE | T_BYTE | T_SHORT | T_INT | T_LONG

type_synonym Label = int

record BC =
  instr :: string
  pop :: int
  push :: int

definition bc :: "string \<Rightarrow> int \<Rightarrow> int \<Rightarrow> BC" where
  "bc i po pu = \<lparr>instr = i, pop = po, push = pu\<rparr>"

fun instruction_set :: "Bytecode \<Rightarrow> BC" where
  "instruction_set JVM_ALOAD = bc ''aload'' 0 1"
| "instruction_set JVM_ARETURN = bc ''areturn'' 1 0"
| "instruction_set JVM_ASTORE = bc ''astore'' 1 0"
| "instruction_set JVM_GETSTATIC = bc ''getstatic'' 0 1"
| "instruction_set JVM_GOTO = bc ''goto'' 0 0"
| "instruction_set JVM_IADD = bc ''iadd'' 2 1"
| "instruction_set JVM_IALOAD = bc ''iaload'' 2 1"
| "instruction_set JVM_IAND = bc ''iand'' 2 1"
| "instruction_set JVM_IASTORE = bc ''iastore'' 3 0"
| "instruction_set JVM_IDIV = bc ''idiv'' 2 1"
| "instruction_set JVM_IFEQ = bc ''ifeq'' 1 0"
| "instruction_set JVM_IF_ICMPEQ = bc ''if_icmpeq'' 2 0"
| "instruction_set JVM_IF_ICMPGE = bc ''if_icmpge'' 2 0"
| "instruction_set JVM_IF_ICMPGT = bc ''if_icmpgt'' 2 0"
| "instruction_set JVM_IF_ICMPLE = bc ''if_icmple'' 2 0"
| "instruction_set JVM_IF_ICMPLT = bc ''if_icmplt'' 2 0"
| "instruction_set JVM_IF_ICMPNE = bc ''if_icmpne'' 2 0"
| "instruction_set JVM_ILOAD = bc ''iload'' 0 1"
| "instruction_set JVM_IMUL = bc ''imul'' 2 1"
| "instruction_set JVM_INEG = bc ''ineg'' 1 1"
| "instruction_set JVM_INVOKESTATIC = bc ''invokestatic'' 0 1"
| "instruction_set JVM_INVOKEVIRTUAL = bc ''invokevirtual'' 0 0"
| "instruction_set JVM_IOR = bc ''ior'' 2 1"
| "instruction_set JVM_ISTORE = bc ''istore'' 1 0"
| "instruction_set JVM_ISUB = bc ''isub'' 2 1"
| "instruction_set JVM_IREM = bc ''irem'' 2 1"
| "instruction_set JVM_IRETURN = bc ''ireturn'' 1 0"
| "instruction_set JVM_IXOR = bc ''ixor'' 2 1"
| "instruction_set JVM_LDC = bc ''ldc'' 0 1"
| "instruction_set JVM_NEWARRAY = bc ''newarray'' 1 1"
| "instruction_set JVM_RETURN = bc ''return'' 0 0"
| "instruction_set JVM_SWAP = bc ''swap'' 2 2"

fun java_types :: "JVMatype \<Rightarrow> string" where
  "java_types T_BOOLEAN = ''boolean''"
| "java_types T_CHAR = ''char''"
| "java_types T_FLOAT = ''float''"
| "java_types T_DOUBLE = ''double''"
| "java_types T_BYTE = ''byte''"
| "java_types T_SHORT = ''short''"
| "java_types T_INT = ''int''"
| "java_types T_LONG = ''long''"

text \<open>
  A code item: the tag of \<^verbatim>\<open>CodeType\<close> with the member of the union it selects.
  \<open>CODE_LABEL_OPERAND\<close> is \<^verbatim>\<open>CODE_LABEL | CODE_OPERAND\<close>; the four others
  with a datum are \<^verbatim>\<open>CODE_OPERAND\<close> with the data type of their name.
\<close>

datatype Code =
    CODE_LABEL Label
  | CODE_INSTRUCTION Bytecode
  | CODE_LABEL_OPERAND Label
  | CODE_INTEGER int
  | CODE_ARRAY_TYPE JVMatype
  | CODE_STRING CString
  | CODE_REFERENCE string

text \<open>
  A node of the list of bodies.  The list that starts at \<^verbatim>\<open>bodies\<close> and follows
  \<^verbatim>\<open>next\<close> is a HOL list of nodes; \<^verbatim>\<open>prev\<close> is written and never read.
\<close>

record Body =
  body_name :: string
  body_idprop :: IDprop
  body_code :: "Code list"
  body_ip :: nat
  body_max_stack_depth :: int
  body_variables_width :: nat

record codegen =
  class_name :: string
  function_name :: string
  jasm_name :: string
  code_size :: nat
  ip :: nat
  bodies :: "Body list"
  code :: "Code list"
  idprop :: IDprop
  stack_depth :: int
  max_stack_depth :: int
  label :: Label
  ref_read_boolean :: string
  ref_read_integer :: string

definition NL :: string where
  "NL = [CHR 0x0A]"

definition TAB :: string where
  "TAB = [CHR 0x09]"

definition DQ :: string where
  "DQ = [CHR 0x22]"

definition class_preamble :: "string \<Rightarrow> string" where
  "class_preamble name =
     ''.class public '' @ name @ NL @ ''.super java/lang/Object'' @ NL @ NL @
     ''.field private static final charsetName Ljava/lang/String;'' @ NL @
     ''.field private static final usLocale Ljava/util/Locale;'' @ NL @
     ''.field private static final scanner Ljava/util/Scanner;'' @ NL @ NL @
     ''.method static public <clinit>()V'' @ NL @ ''.limit stack 5'' @ NL @
     ''.limit locals 1 '' @ NL @ TAB @ ''ldc'' @ TAB @ DQ @ ''UTF-8'' @ DQ @ NL @ TAB @
     ''putstatic '' @ name @ ''/charsetName Ljava/lang/String;'' @ NL @ TAB @ ''new'' @ TAB @
     ''java/util/Locale'' @ NL @ TAB @ ''dup'' @ NL @ TAB @ ''ldc'' @ TAB @ DQ @ ''en'' @ DQ @
     NL @ TAB @ ''ldc'' @ TAB @ DQ @ ''US'' @ DQ @ NL @ TAB @
     ''invokespecial java/util/Locale/<init>(Ljava/lang/String;Ljava/lang/String;)V'' @ NL @
     TAB @ ''putstatic '' @ name @ ''/usLocale Ljava/util/Locale;'' @ NL @ TAB @ ''new'' @
     TAB @ ''java/util/Scanner'' @ NL @ TAB @ ''dup'' @ NL @ TAB @ ''new'' @ TAB @
     ''java/io/BufferedInputStream'' @ NL @ TAB @ ''dup'' @ NL @ TAB @
     ''getstatic java/lang/System/in Ljava/io/InputStream;'' @ NL @ TAB @
     ''invokespecial java/io/BufferedInputStream/<init>(Ljava/io/InputStream;)V'' @ NL @ TAB @
     ''getstatic '' @ name @ ''/charsetName Ljava/lang/String;'' @ NL @ TAB @
     ''invokespecial java/util/Scanner/<init>(Ljava/io/InputStream;Ljava/lang/String;)V'' @
     NL @ TAB @ ''putstatic '' @ name @ ''/scanner Ljava/util/Scanner;'' @ NL @ TAB @
     ''getstatic '' @ name @ ''/scanner Ljava/util/Scanner;'' @ NL @ TAB @ ''getstatic '' @
     name @ ''/usLocale Ljava/util/Locale;'' @ NL @ TAB @
     ''invokevirtual java/util/Scanner/useLocale(Ljava/util/Locale;)Ljava/util/Scanner;'' @
     NL @ TAB @ ''pop'' @ NL @ TAB @ ''return'' @ NL @ ''.end method'' @ NL @ NL"

definition method_init :: string where
  "method_init =
     ''.method public <init>()V'' @ NL @ TAB @ ''aload_0'' @ NL @ TAB @
     ''invokespecial java/lang/Object/<init>()V'' @ NL @ TAB @ ''return'' @ NL @
     ''.end method'' @ NL @ NL"

definition method_readBoolean :: "string \<Rightarrow> string" where
  "method_readBoolean name =
     ''.method public static readBoolean()Z'' @ NL @ ''.limit stack 2'' @ NL @
     ''.limit locals 1'' @ NL @ TAB @ ''getstatic '' @ name @
     ''/scanner Ljava/util/Scanner;'' @ NL @ TAB @
     ''invokevirtual java/util/Scanner/next()Ljava/lang/String;'' @ NL @ TAB @ ''astore 0'' @
     NL @ TAB @ ''aload 0'' @ NL @ TAB @ ''ldc'' @ TAB @ DQ @ ''true'' @ DQ @ NL @ TAB @
     ''invokevirtual java/lang/String/equalsIgnoreCase(Ljava/lang/String;)Z'' @ NL @ TAB @
     ''ifeq False'' @ NL @ TAB @ ''iconst_1'' @ NL @ TAB @ ''ireturn'' @ NL @ ''False:'' @ NL @
     TAB @ ''aload 0'' @ NL @ TAB @ ''ldc'' @ TAB @ DQ @ ''false'' @ DQ @ NL @ TAB @
     ''invokevirtual java/lang/String/equalsIgnoreCase(Ljava/lang/String;)Z'' @ NL @ TAB @
     ''ifeq Exception'' @ NL @ TAB @ ''iconst_0'' @ NL @ TAB @ ''ireturn'' @ NL @
     ''Exception:'' @ NL @ TAB @ ''new'' @ TAB @ ''java/util/InputMismatchException'' @ NL @
     TAB @ ''dup'' @ NL @ TAB @ ''invokespecial java/util/InputMismatchException/<init>()V'' @
     NL @ TAB @ ''athrow'' @ NL @ ''.end method'' @ NL @ NL"

definition method_readInt :: "string \<Rightarrow> string" where
  "method_readInt name =
     ''.method public static readInt()I'' @ NL @ ''.limit stack 1'' @ NL @
     ''.limit locals 1'' @ NL @ TAB @ ''getstatic '' @ name @
     ''/scanner Ljava/util/Scanner;'' @ NL @ TAB @
     ''invokevirtual java/util/Scanner/nextInt()I'' @ NL @ TAB @ ''ireturn'' @ NL @
     ''.end method'' @ NL @ NL"

definition ref_print_boolean :: string where
  "ref_print_boolean = ''java/io/PrintStream/print(Z)V''"

definition ref_print_integer :: string where
  "ref_print_integer = ''java/io/PrintStream/print(I)V''"

definition ref_print_stream :: string where
  "ref_print_stream = ''java/lang/System/out Ljava/io/PrintStream;''"

definition ref_print_string :: string where
  "ref_print_string = ''java/io/PrintStream/print(Ljava/lang/String;)V''"

definition INITIAL_SIZE :: nat where
  "INITIAL_SIZE = 1024"

text \<open>The statics of the unit when the program starts: the label counter is 1.\<close>

definition initial_codegen :: codegen where
  "initial_codegen =
     \<lparr>class_name = [], function_name = [], jasm_name = [], code_size = 0, ip = 0,
      bodies = [], code = [], idprop = mk_idprop TYPE_NONE 0 0 None,
      stack_depth = 0, max_stack_depth = 0, label = 1,
      ref_read_boolean = [], ref_read_integer = []\<rparr>"

definition init_code_generation :: "codegen \<Rightarrow> codegen" where
  "init_code_generation cg = cg\<lparr>bodies := []\<rparr>"

definition init_subroutine_codegen :: "string \<Rightarrow> IDprop \<Rightarrow> codegen \<Rightarrow> codegen" where
  "init_subroutine_codegen name p cg =
     cg\<lparr>max_stack_depth := 0, stack_depth := 0, ip := 0, code := [],
        code_size := INITIAL_SIZE, function_name := name, idprop := p\<rparr>"

text \<open>
  The loop of \<^verbatim>\<open>close_subroutine_codegen\<close>.  A pointer into the list is the
  part of the list from its node on, the null pointer the empty list.  The
  loop assigns to \<open>p\<close> and never to \<open>n\<close>; it returns \<open>p\<close> when it ends.
\<close>

partial_function (option) link_loop :: "Body list \<Rightarrow> Body list \<Rightarrow> Body list option" where
  "link_loop n p = (if tl n \<noteq> [] then link_loop n (tl n) else Some p)"

definition close_subroutine_codegen :: "nat \<Rightarrow> codegen \<Rightarrow> codegen option" where
  "close_subroutine_codegen varwidth cg =
     (let body = \<lparr>body_name = function_name cg, body_idprop = idprop cg, body_code = code cg,
                  body_ip = ip cg, body_max_stack_depth = max_stack_depth cg,
                  body_variables_width = varwidth\<rparr>;
          n = bodies cg
      in if bodies cg \<noteq> [] then
           (case link_loop n [] of
              None \<Rightarrow> None
            | Some p \<Rightarrow> Some (cg\<lparr>bodies := hd n # body # []\<rparr>))
         else Some (cg\<lparr>bodies := [body]\<rparr>))"

definition set_class_name :: "string \<Rightarrow> codegen \<Rightarrow> codegen" where
  "set_class_name cname cg =
     cg\<lparr>class_name := cname, jasm_name := cname @ ''.jasmin'',
        ref_read_boolean := cname @ ''/readBoolean()Z'',
        ref_read_integer := cname @ ''/readInt()I''\<rparr>"

text \<open>
  \<^verbatim>\<open>ensure_space\<close> doubles the \<^verbatim>\<open>int\<close> \<^verbatim>\<open>code_size\<close>; the product
  \<^verbatim>\<open>code_size * 2\<close> is computed in \<^verbatim>\<open>int\<close>, and C gives it no meaning when it
  exceeds \<^verbatim>\<open>INT_MAX\<close>.  \<^verbatim>\<open>erealloc\<close> is taken to succeed.
\<close>

definition ensure_space :: "nat \<Rightarrow> codegen \<Rightarrow> error + codegen" where
  "ensure_space num_instr cg =
     (if ip cg + num_instr > code_size cg then
        (if int (code_size cg) * 2 > INT_MAX
         then Inl (Undefined ''ensure_space: overflow of code_size'')
         else Inr (cg\<lparr>code_size := code_size cg * 2\<rparr>))
      else Inr cg)"

text \<open>\<^verbatim>\<open>code[ip++] = item\<close>: the items below \<open>ip\<close> are the code so far.\<close>

definition store_code :: "Code \<Rightarrow> codegen \<Rightarrow> codegen" where
  "store_code item cg = cg\<lparr>code := take (ip cg) (code cg) @ [item], ip := ip cg + 1\<rparr>"

text \<open>\<^verbatim>\<open>stack_depth\<close> and \<^verbatim>\<open>max_stack_depth\<close> are C \<^verbatim>\<open>int\<close>s.\<close>

definition adjust_stack :: "BC \<Rightarrow> codegen \<Rightarrow> codegen" where
  "adjust_stack b cg =
     (let cg1 = cg\<lparr>stack_depth := int32 (stack_depth cg + push b)\<rparr>;
          cg2 = (if stack_depth cg1 > max_stack_depth cg1
                 then cg1\<lparr>max_stack_depth := stack_depth cg1\<rparr> else cg1)
      in cg2\<lparr>stack_depth := int32 (stack_depth cg2 - pop b)\<rparr>)"

definition gen_1 :: "Bytecode \<Rightarrow> codegen \<Rightarrow> error + codegen" where
  "gen_1 opcode cg =
     (case ensure_space 1 cg of
        Inl e \<Rightarrow> Inl e
      | Inr cg1 \<Rightarrow>
          Inr (adjust_stack (instruction_set opcode)
                (store_code (CODE_INSTRUCTION opcode) cg1)))"

definition gen_2 :: "Bytecode \<Rightarrow> int \<Rightarrow> codegen \<Rightarrow> error + codegen" where
  "gen_2 opcode operand cg =
     (case ensure_space 2 cg of
        Inl e \<Rightarrow> Inl e
      | Inr cg1 \<Rightarrow>
          Inr (adjust_stack (instruction_set opcode)
                (store_code (CODE_INTEGER operand)
                  (store_code (CODE_INSTRUCTION opcode) cg1))))"

definition call_path :: "string \<Rightarrow> string \<Rightarrow> IDprop \<Rightarrow> string" where
  "call_path cname fname p =
     cname @ ''.'' @ fname @ ''('' @
     concat (map (\<lambda>t. (if IS_ARRAY_TYPE t then ''['' else []) @ ''I'')
               (take (nparams p) (case params p of None \<Rightarrow> [] | Some ps \<Rightarrow> ps))) @
     '')'' @ (if IS_ARRAY_TYPE (vtype p) then ''['' else []) @
     (if vtype p = TYPE_CALLABLE then ''V'' else ''I'')"

text \<open>
  \<^verbatim>\<open>gen_call\<close> reads \<^verbatim>\<open>params[i]\<close> for every \<open>i\<close> below \<^verbatim>\<open>nparams\<close>: fewer
  parameter types than that is a read outside the array.
\<close>

definition gen_call :: "string \<Rightarrow> IDprop \<Rightarrow> codegen \<Rightarrow> error + codegen" where
  "gen_call fname p cg =
     (case ensure_space 2 cg of
        Inl e \<Rightarrow> Inl e
      | Inr cg1 \<Rightarrow>
          if nparams p > length (case params p of None \<Rightarrow> [] | Some ps \<Rightarrow> ps)
          then Inl (Undefined ''gen_call: params read out of bounds'')
          else Inr (adjust_stack (instruction_set JVM_INVOKESTATIC)
                 (store_code (CODE_REFERENCE (call_path (class_name cg1) fname p))
                   (store_code (CODE_INSTRUCTION JVM_INVOKESTATIC) cg1))))"

text \<open>\<^verbatim>\<open>Label\<close> is an \<^verbatim>\<open>int\<close>; the counter is a static of \<^verbatim>\<open>get_label\<close>.\<close>

definition get_label :: "codegen \<Rightarrow> Label \<times> codegen" where
  "get_label cg = (label cg, cg\<lparr>label := int32 (label cg + 1)\<rparr>)"

definition gen_label :: "Label \<Rightarrow> codegen \<Rightarrow> error + codegen" where
  "gen_label l cg =
     (case ensure_space 1 cg of
        Inl e \<Rightarrow> Inl e
      | Inr cg1 \<Rightarrow> Inr (store_code (CODE_LABEL l) cg1))"

definition gen_2_label :: "Bytecode \<Rightarrow> Label \<Rightarrow> codegen \<Rightarrow> error + codegen" where
  "gen_2_label opcode l cg =
     (case ensure_space 2 cg of
        Inl e \<Rightarrow> Inl e
      | Inr cg1 \<Rightarrow>
          Inr (adjust_stack (instruction_set opcode)
                (store_code (CODE_LABEL_OPERAND l)
                  (store_code (CODE_INSTRUCTION opcode) cg1))))"

text \<open>One call after the other, the first failure ending the run.\<close>

definition and_then :: "error + 'a \<Rightarrow> ('a \<Rightarrow> error + 'b) \<Rightarrow> error + 'b" where
  "and_then m f = (case m of Inl e \<Rightarrow> Inl e | Inr x \<Rightarrow> f x)"

definition gen_cmp :: "Bytecode \<Rightarrow> codegen \<Rightarrow> error + codegen" where
  "gen_cmp opcode cg =
     (let (l1, cg1) = get_label cg;
          (l2, cg2) = get_label cg1
      in and_then (gen_2_label opcode l1 cg2) (\<lambda>cg3.
         and_then (gen_2 JVM_LDC 0 cg3) (\<lambda>cg4.
         and_then (gen_2_label JVM_GOTO l2 cg4) (\<lambda>cg5.
         and_then (gen_label l1 cg5) (\<lambda>cg6.
         and_then (gen_2 JVM_LDC 1 cg6) (\<lambda>cg7.
         gen_label l2 cg7))))))"

definition gen_newarray :: "JVMatype \<Rightarrow> codegen \<Rightarrow> error + codegen" where
  "gen_newarray atype cg =
     (case ensure_space 2 cg of
        Inl e \<Rightarrow> Inl e
      | Inr cg1 \<Rightarrow>
          Inr (adjust_stack (instruction_set JVM_NEWARRAY)
                (store_code (CODE_ARRAY_TYPE atype)
                  (store_code (CODE_INSTRUCTION JVM_NEWARRAY) cg1))))"

text \<open>\<^verbatim>\<open>assert(FALSE)\<close> ends the process.\<close>

definition gen_print :: "ValType \<Rightarrow> codegen \<Rightarrow> error + codegen" where
  "gen_print t cg =
     (case ensure_space 5 cg of
        Inl e \<Rightarrow> Inl e
      | Inr cg0 \<Rightarrow>
          (let cg1 = store_code (CODE_INSTRUCTION JVM_INVOKEVIRTUAL)
                       (store_code (CODE_INSTRUCTION JVM_SWAP)
                         (store_code (CODE_REFERENCE ref_print_stream)
                           (store_code (CODE_INSTRUCTION JVM_GETSTATIC) cg0)));
               t1 = (if IS_CALLABLE_TYPE t then SET_RETURN_TYPE t else t)
           in if t1 = TYPE_BOOLEAN \<or> t1 = TYPE_INTEGER then
                Inr (adjust_stack (instruction_set JVM_INVOKEVIRTUAL)
                      (adjust_stack (instruction_set JVM_SWAP)
                        (adjust_stack (instruction_set JVM_GETSTATIC)
                          (store_code (CODE_REFERENCE
                             (if t1 = TYPE_BOOLEAN then ref_print_boolean else ref_print_integer)) cg1))))
              else Inl (Undefined ''gen_print: assertion failed'')))"

definition gen_print_string :: "CString \<Rightarrow> codegen \<Rightarrow> error + codegen" where
  "gen_print_string str cg =
     (case ensure_space 6 cg of
        Inl e \<Rightarrow> Inl e
      | Inr cg0 \<Rightarrow>
          Inr (adjust_stack (instruction_set JVM_INVOKEVIRTUAL)
                (adjust_stack (instruction_set JVM_LDC)
                  (adjust_stack (instruction_set JVM_GETSTATIC)
                    (store_code (CODE_REFERENCE ref_print_string)
                      (store_code (CODE_INSTRUCTION JVM_INVOKEVIRTUAL)
                        (store_code (CODE_STRING str)
                          (store_code (CODE_INSTRUCTION JVM_LDC)
                            (store_code (CODE_REFERENCE ref_print_stream)
                              (store_code (CODE_INSTRUCTION JVM_GETSTATIC) cg0))))))))))"

definition gen_read :: "ValType \<Rightarrow> codegen \<Rightarrow> error + codegen" where
  "gen_read t cg =
     (case ensure_space 2 cg of
        Inl e \<Rightarrow> Inl e
      | Inr cg0 \<Rightarrow>
          (let cg1 = store_code (CODE_INSTRUCTION JVM_INVOKESTATIC) cg0
           in if t = TYPE_BOOLEAN \<or> t = TYPE_INTEGER then
                Inr (adjust_stack (instruction_set JVM_INVOKESTATIC)
                      (store_code (CODE_REFERENCE
                         (if t = TYPE_BOOLEAN then ref_read_boolean cg1 else ref_read_integer cg1)) cg1))
              else Inl (Undefined ''gen_read: assertion failed'')))"

definition get_opcode_string :: "Bytecode \<Rightarrow> string" where
  "get_opcode_string opcode = instr (instruction_set opcode)"

subsubsection \<open>Code dumping\<close>

text \<open>
  What \<^verbatim>\<open>%s\<close> prints of a string: the bytes up to the terminator.  They are
  the stored characters when the terminator follows them; otherwise a byte
  that was never written is printed.
\<close>

definition c_string_text :: "CString \<Rightarrow> error + string" where
  "c_string_text str =
     (if nul_at str = length (stored str) then Inr (stored str)
      else Inl (Undefined ''string read past the stored characters''))"

definition emits_linefeed :: "Bytecode \<Rightarrow> bool" where
  "emits_linefeed c =
     (c \<in> {JVM_ARETURN, JVM_IADD, JVM_IALOAD, JVM_IAND, JVM_IASTORE, JVM_IDIV, JVM_IMUL,
            JVM_INEG, JVM_IOR, JVM_ISUB, JVM_IREM, JVM_IRETURN, JVM_IXOR, JVM_RETURN, JVM_SWAP})"

fun dump_item :: "Code \<Rightarrow> error + string" where
  "dump_item (CODE_LABEL l) = Inr (''L'' @ show_int l @ '':'' @ NL)"
| "dump_item (CODE_LABEL_OPERAND l) = Inr ('' L'' @ show_int l @ NL)"
| "dump_item (CODE_INSTRUCTION c) =
     Inr (TAB @ get_opcode_string c @ (if emits_linefeed c then NL else []))"
| "dump_item (CODE_ARRAY_TYPE a) = Inr ('' '' @ java_types a @ NL)"
| "dump_item (CODE_INTEGER n) = Inr ('' '' @ show_int n @ NL)"
| "dump_item (CODE_REFERENCE r) = Inr ('' '' @ r @ NL)"
| "dump_item (CODE_STRING str) =
     (case c_string_text str of
        Inl e \<Rightarrow> Inl e
      | Inr txt \<Rightarrow> Inr ('' '' @ DQ @ txt @ DQ @ NL))"

fun dump_items :: "Code list \<Rightarrow> error + string" where
  "dump_items [] = Inr []"
| "dump_items (c # cs) =
     (case dump_item c of
        Inl e \<Rightarrow> Inl e
      | Inr x \<Rightarrow> (case dump_items cs of Inl e \<Rightarrow> Inl e | Inr y \<Rightarrow> Inr (x @ y)))"

definition is_label :: "Code \<Rightarrow> bool" where
  "is_label c = (case c of CODE_LABEL l \<Rightarrow> True | _ \<Rightarrow> False)"

definition method_header :: "Body \<Rightarrow> string" where
  "method_header b =
     (if body_name b = ''main'' then ''.method public static main([Ljava/lang/String;)V'' @ NL
      else ''.method public static '' @ body_name b @ ''('' @
           concat (map (\<lambda>t. (if IS_ARRAY t then ''['' else []) @ ''I'')
                     (take (nparams (body_idprop b))
                        (case params (body_idprop b) of None \<Rightarrow> [] | Some ps \<Rightarrow> ps))) @
           '')'' @ (if IS_ARRAY_TYPE (vtype (body_idprop b)) then ''['' else []) @
           (if vtype (body_idprop b) = TYPE_CALLABLE then ''V'' else ''I'') @ NL)"

text \<open>
  \<^verbatim>\<open>dump_method\<close> prints the items \<^verbatim>\<open>code[0..ip-1]\<close> and then reads
  \<^verbatim>\<open>code[ip - 1]\<close> for the guard against a dangling label: with \<open>ip = 0\<close> that
  is a read before the buffer.
\<close>

definition dump_method :: "Body \<Rightarrow> error + string" where
  "dump_method b =
     (if body_name b \<noteq> ''main''
         \<and> nparams (body_idprop b) > length (case params (body_idprop b) of None \<Rightarrow> [] | Some ps \<Rightarrow> ps)
      then Inl (Undefined ''dump_method: params read out of bounds'')
      else if body_ip b > length (body_code b)
      then Inl (Undefined ''dump_method: code read out of bounds'')
      else
        (case dump_items (take (body_ip b) (body_code b)) of
           Inl e \<Rightarrow> Inl e
         | Inr items \<Rightarrow>
             if body_ip b = 0 then Inl (Undefined ''dump_method: read of code[-1]'')
             else Inr (method_header b @
                       ''.limit stack '' @ show_int (body_max_stack_depth b) @ NL @
                       ''.limit locals '' @ show_int (int (body_variables_width b)) @ NL @
                       items @
                       (if is_label (body_code b ! (body_ip b - 1)) then TAB @ ''nop'' @ NL else []) @
                       ''.end method'' @ NL @ NL)))"

definition dump_preamble :: "string \<Rightarrow> string" where
  "dump_preamble name =
     class_preamble name @ method_init @ method_readInt name @ method_readBoolean name"

fun dump_methods :: "Body list \<Rightarrow> error + string" where
  "dump_methods [] = Inr []"
| "dump_methods (b # bs) =
     (case dump_method b of
        Inl e \<Rightarrow> Inl e
      | Inr x \<Rightarrow> (case dump_methods bs of Inl e \<Rightarrow> Inl e | Inr y \<Rightarrow> Inr (x @ y)))"

definition dump_code :: "codegen \<Rightarrow> error + string" where
  "dump_code cg =
     (case dump_methods (bodies cg) of
        Inl e \<Rightarrow> Inl e
      | Inr ms \<Rightarrow> Inr (dump_preamble (class_name cg) @ ms))"

subsubsection \<open>Notions the properties of the code generator are stated with\<close>

text \<open>
  A call the parser makes between \<^verbatim>\<open>init_subroutine_codegen\<close> and
  \<^verbatim>\<open>close_subroutine_codegen\<close>: an emitting function, or \<^verbatim>\<open>get_label\<close>.
\<close>

datatype emit =
    Gen_1 Bytecode
  | Gen_2 Bytecode int
  | Gen_call string IDprop
  | Gen_cmp Bytecode
  | Gen_label Label
  | Gen_2_label Bytecode Label
  | Gen_newarray JVMatype
  | Gen_print ValType
  | Gen_print_string CString
  | Gen_read ValType
  | Get_label

fun run_emit :: "emit \<Rightarrow> codegen \<Rightarrow> error + codegen" where
  "run_emit (Gen_1 c) cg = gen_1 c cg"
| "run_emit (Gen_2 c n) cg = gen_2 c n cg"
| "run_emit (Gen_call f p) cg = gen_call f p cg"
| "run_emit (Gen_cmp c) cg = gen_cmp c cg"
| "run_emit (Gen_label l) cg = gen_label l cg"
| "run_emit (Gen_2_label c l) cg = gen_2_label c l cg"
| "run_emit (Gen_newarray a) cg = gen_newarray a cg"
| "run_emit (Gen_print t) cg = gen_print t cg"
| "run_emit (Gen_print_string str) cg = gen_print_string str cg"
| "run_emit (Gen_read t) cg = gen_read t cg"
| "run_emit Get_label cg = Inr (snd (get_label cg))"

fun run_emits :: "emit list \<Rightarrow> codegen \<Rightarrow> error + codegen" where
  "run_emits [] cg = Inr cg"
| "run_emits (e # es) cg =
     (case run_emit e cg of Inl err \<Rightarrow> Inl err | Inr cg' \<Rightarrow> run_emits es cg')"

text \<open>The opcodes among the items of a code buffer, in order.\<close>

fun instructions :: "Code list \<Rightarrow> Bytecode list" where
  "instructions [] = []"
| "instructions (CODE_INSTRUCTION c # cs) = c # instructions cs"
| "instructions (_ # cs) = instructions cs"

text \<open>
  The values the \<^verbatim>\<open>int\<close> \<^verbatim>\<open>stack_depth\<close> takes right after the push of each
  instruction of a sequence, from the value \<open>d\<close> before the first, and its value
  after the sequence.
\<close>

fun depths_after_push :: "int \<Rightarrow> BC list \<Rightarrow> int list" where
  "depths_after_push d [] = []"
| "depths_after_push d (b # bs) =
     int32 (d + push b) # depths_after_push (int32 (int32 (d + push b) - pop b)) bs"

fun final_depth :: "int \<Rightarrow> BC list \<Rightarrow> int" where
  "final_depth d [] = d"
| "final_depth d (b # bs) = final_depth (int32 (int32 (d + push b) - pop b)) bs"

text \<open>
  What the emitting functions keep true of the statics from
  \<^verbatim>\<open>init_subroutine_codegen\<close> on: the code is \<^verbatim>\<open>code[0..ip-1]\<close> and fits the
  buffer, and the two depths are the ones of the instructions of the code.
\<close>

definition cg_inv :: "codegen \<Rightarrow> bool" where
  "cg_inv cg =
     (ip cg = length (code cg)
      \<and> INITIAL_SIZE \<le> code_size cg
      \<and> ip cg \<le> code_size cg
      \<and> stack_depth cg = final_depth 0 (map instruction_set (instructions (code cg)))
      \<and> max_stack_depth cg =
          fold max (depths_after_push 0 (map instruction_set (instructions (code cg)))) 0)"

text \<open>The body \<^verbatim>\<open>close_subroutine_codegen\<close> allocates and populates.\<close>

definition new_body :: "nat \<Rightarrow> codegen \<Rightarrow> Body" where
  "new_body varwidth cg =
     \<lparr>body_name = function_name cg, body_idprop = idprop cg, body_code = code cg,
      body_ip = ip cg, body_max_stack_depth = max_stack_depth cg,
      body_variables_width = varwidth\<rparr>"

text \<open>The statics after the code of \<^verbatim>\<open>7 + 8\<close> and a return has been emitted.\<close>

definition witness_code :: codegen where
  "witness_code =
     initial_codegen
       \<lparr>function_name := ''f'', idprop := mk_idprop TYPE_CALLABLE 0 0 None,
        code_size := 1024, ip := 6,
        code := [CODE_INSTRUCTION JVM_LDC, CODE_INTEGER 7, CODE_INSTRUCTION JVM_LDC, CODE_INTEGER 8,
                 CODE_INSTRUCTION JVM_IADD, CODE_INSTRUCTION JVM_IRETURN],
        stack_depth := 0, max_stack_depth := 3\<rparr>"

subsection \<open>The hash table\<close>

text \<open>
  A bucket is the chain of nodes its pointer leads to.  \<open>NULL\<close> is the null
  pointer and \<open>Entry key value next_ptr\<close> a pointer to a node.  \<^verbatim>\<open>ht_insert\<close>
  leaves the \<^verbatim>\<open>next_ptr\<close> of a node it puts into an empty bucket unassigned:
  the field holds what \<^verbatim>\<open>malloc\<close> returned.  That value is a parameter of the
  model, \<open>fresh\<close>: it is \<open>NULL\<close> where the allocator hands out zeroed memory
  and \<open>Indeterminate\<close>, a pointer that cannot be followed, otherwise.
\<close>

datatype ('k, 'v) HTentry =
    NULL
  | Indeterminate
  | Entry 'k 'v "('k, 'v) HTentry"

text \<open>
  \<^verbatim>\<open>hashtable.h\<close> is not among the sources: the two results of \<^verbatim>\<open>ht_insert\<close> are
  named as the code names them.  The load factor is a \<^verbatim>\<open>float\<close> in the code and
  the quotient of the number of entries by the size is compared with it in
  \<^verbatim>\<open>float\<close>; the model compares the exact quotient, which is the same for the
  load factor 0.75 and a table of fewer than \<open>2^23\<close> buckets.  The unsigned
  counters are natural numbers, reduced modulo \<open>2^32\<close> (\<open>2^16\<close> for the
  \<^verbatim>\<open>unsigned short\<close> \<^verbatim>\<open>idx\<close>) where the code increments them.  Keys and values
  are the pointers the table holds: the objects they point to are not part of
  the table.
\<close>

datatype ht_status = EXIT_SUCCESS | HASH_TABLE_KEY_VALUE_PAIR_EXISTS

record ('k, 'v) HashTab =
  ht_table :: "('k, 'v) HTentry list"
  ht_size :: nat
  ht_num_entries :: nat
  ht_max_loadfactor :: rat
  ht_idx :: nat
  ht_hash :: "'k \<Rightarrow> nat \<Rightarrow> nat"
  ht_cmp :: "'k \<Rightarrow> 'k \<Rightarrow> int"

definition INITIAL_DELTA_INDEX :: nat where
  "INITIAL_DELTA_INDEX = 4"

definition delta :: "int list" where
  "delta = [0, 0, 1, 1, 3, 1, 3, 1, 5, 3, 3, 9, 3, 1, 3, 19, 15,
            1, 5, 1, 3, 9, 3, 15, 3, 39, 5, 39, 57, 3, 35, 1]"

definition MAX_IDX :: int where
  "MAX_IDX = int (length delta)"

definition ht_init :: "rat \<Rightarrow> ('k \<Rightarrow> nat \<Rightarrow> nat) \<Rightarrow> ('k \<Rightarrow> 'k \<Rightarrow> int) \<Rightarrow> ('k, 'v) HashTab" where
  "ht_init loadfactor hash cmp =
     \<lparr>ht_table = replicate 13 NULL, ht_size = 13, ht_num_entries = 1,
      ht_max_loadfactor = loadfactor, ht_idx = INITIAL_DELTA_INDEX,
      ht_hash = hash, ht_cmp = cmp\<rparr>"

text \<open>
  The loop of \<^verbatim>\<open>ht_search\<close> along a chain: the value of the first node with
  the key, or \<open>None\<close> at the null pointer.
\<close>

fun chain_search :: "('k \<Rightarrow> 'k \<Rightarrow> int) \<Rightarrow> 'k \<Rightarrow> ('k, 'v) HTentry \<Rightarrow> error + 'v option" where
  "chain_search cmp key NULL = Inr None"
| "chain_search cmp key Indeterminate = Inl (Undefined ''next_ptr was never assigned'')"
| "chain_search cmp key (Entry k v nxt) =
     (if cmp key k = 0 then Inr (Some v) else chain_search cmp key nxt)"

text \<open>
  \<^verbatim>\<open>ht_search\<close>: \<open>Some v\<close> is the result \<^verbatim>\<open>TRUE\<close> with \<open>v\<close> stored through the
  third argument, \<open>None\<close> the result \<^verbatim>\<open>FALSE\<close> with nothing stored.
\<close>

definition ht_search :: "('k, 'v) HashTab \<Rightarrow> 'k \<Rightarrow> error + 'v option" where
  "ht_search ht key =
     (let k = ht_hash ht key (ht_size ht)
      in if k < length (ht_table ht) then chain_search (ht_cmp ht) key (ht_table ht ! k)
         else Inl (Undefined ''bucket index out of bounds''))"

text \<open>The walk of \<^verbatim>\<open>ht_insert\<close> to the end of a chain, where it links the new node.\<close>

fun chain_append :: "('k, 'v) HTentry \<Rightarrow> 'k \<Rightarrow> 'v \<Rightarrow> error + ('k, 'v) HTentry" where
  "chain_append NULL key value = Inr (Entry key value NULL)"
| "chain_append Indeterminate key value = Inl (Undefined ''next_ptr was never assigned'')"
| "chain_append (Entry k v nxt) key value =
     (case chain_append nxt key value of
        Inl e \<Rightarrow> Inl e
      | Inr nxt' \<Rightarrow> Inr (Entry k v nxt'))"

text \<open>
  The part of \<^verbatim>\<open>ht_insert\<close> after the test of the load.  The code passes the
  pointer \<^verbatim>\<open>value\<close> itself as the place where \<^verbatim>\<open>ht_search\<close> stores what it
  finds; that store goes into the object \<^verbatim>\<open>value\<close> points to, which is not
  part of the table.
\<close>

definition ht_link :: "('k, 'v) HTentry \<Rightarrow> ('k, 'v) HashTab \<Rightarrow> 'k \<Rightarrow> 'v \<Rightarrow> error + (ht_status \<times> ('k, 'v) HashTab)" where
  "ht_link fresh ht key value =
     (case ht_search ht key of
        Inl e \<Rightarrow> Inl e
      | Inr (Some found) \<Rightarrow> Inr (HASH_TABLE_KEY_VALUE_PAIR_EXISTS, ht)
      | Inr None \<Rightarrow>
          (let k = ht_hash ht key (ht_size ht)
           in if ht_table ht ! k = NULL then
                Inr (EXIT_SUCCESS,
                     ht\<lparr>ht_table := (ht_table ht)[k := Entry key value fresh],
                        ht_num_entries := (ht_num_entries ht + 1) mod 4294967296\<rparr>)
              else
                (case chain_append (ht_table ht ! k) key value of
                   Inl e \<Rightarrow> Inl e
                 | Inr chain \<Rightarrow>
                     Inr (EXIT_SUCCESS,
                          ht\<lparr>ht_table := (ht_table ht)[k := chain],
                             ht_num_entries := (ht_num_entries ht + 1) mod 4294967296\<rparr>))))"

fun power_loop :: "nat \<Rightarrow> int \<Rightarrow> int \<Rightarrow> int" where
  "power_loop 0 num new_num = new_num"
| "power_loop (Suc i) num new_num = power_loop i num (int32 (new_num * num))"

definition power :: "int \<Rightarrow> int \<Rightarrow> int" where
  "power num exponent = power_loop (nat (exponent - 1)) num num"

function getsize_loop :: "int \<Rightarrow> int \<Rightarrow> int \<Rightarrow> int" where
  "getsize_loop curr_prime i next_prime =
     (if i < MAX_IDX then
        (if curr_prime < power 2 i
         then power 2 (i + 1) - delta ! nat (i + 1)
         else getsize_loop curr_prime (i + 1) next_prime)
      else next_prime)"
  by pat_completeness auto
termination
  by (relation "measure (\<lambda>(curr_prime, i, next_prime). nat (MAX_IDX - i))") auto

declare getsize_loop.simps [simp del]

text \<open>\<^verbatim>\<open>getsize\<close>: the size it returns and the table with \<^verbatim>\<open>idx\<close> incremented.\<close>

definition getsize :: "('k, 'v) HashTab \<Rightarrow> int \<times> ('k, 'v) HashTab" where
  "getsize ht =
     (let curr_prime = int32 (int (ht_size ht))
      in if curr_prime < 13 then (13, ht)
         else (getsize_loop curr_prime (int INITIAL_DELTA_INDEX) 0,
               ht\<lparr>ht_idx := (ht_idx ht + 1) mod 65536\<rparr>))"

definition loaded :: "('k, 'v) HashTab \<Rightarrow> bool" where
  "loaded ht = (of_nat (ht_num_entries ht) / of_nat (ht_size ht) \<ge> ht_max_loadfactor ht)"

text \<open>
  \<^verbatim>\<open>ht_insert\<close> and \<^verbatim>\<open>rehash\<close> call each other: \<^verbatim>\<open>rehash\<close> inserts every entry
  of the old table into the new one with \<^verbatim>\<open>ht_insert\<close>, which tests the load
  of the new table.  The first argument bounds the depth of these calls.
  \<open>rehash_buckets\<close> and \<open>rehash_chain\<close> are the two loops of \<^verbatim>\<open>rehash\<close>.
\<close>

fun ht_insert :: "nat \<Rightarrow> ('k, 'v) HTentry \<Rightarrow> ('k, 'v) HashTab \<Rightarrow> 'k \<Rightarrow> 'v \<Rightarrow> error + (ht_status \<times> ('k, 'v) HashTab)"
  and rehash :: "nat \<Rightarrow> ('k, 'v) HTentry \<Rightarrow> ('k, 'v) HashTab \<Rightarrow> error + ('k, 'v) HashTab"
  and rehash_buckets :: "nat \<Rightarrow> ('k, 'v) HTentry \<Rightarrow> ('k, 'v) HashTab \<Rightarrow> ('k, 'v) HTentry list \<Rightarrow> error + ('k, 'v) HashTab"
  and rehash_chain :: "nat \<Rightarrow> ('k, 'v) HTentry \<Rightarrow> ('k, 'v) HashTab \<Rightarrow> ('k, 'v) HTentry \<Rightarrow> error + ('k, 'v) HashTab"
where
  "ht_insert fuel fresh ht key value =
     (if loaded ht then
        (case fuel of
           0 \<Rightarrow> Inl OutOfFuel
         | Suc n \<Rightarrow>
             (case rehash n fresh ht of
                Inl e \<Rightarrow> Inl e
              | Inr ht' \<Rightarrow> ht_link fresh ht' key value))
      else ht_link fresh ht key value)"
| "rehash n fresh ht =
     (let (newsize, ht1) = getsize ht;
          newht = \<lparr>ht_table = replicate (nat (newsize mod 4294967296)) NULL,
                   ht_size = nat (newsize mod 4294967296),
                   ht_num_entries = ht_num_entries ht1, ht_max_loadfactor = ht_max_loadfactor ht1,
                   ht_idx = ht_idx ht1, ht_hash = ht_hash ht1, ht_cmp = ht_cmp ht1\<rparr>
      in if ht_size ht1 \<noteq> length (ht_table ht1)
         then Inl (Undefined ''bucket index out of bounds'')
         else
           (case rehash_buckets n fresh newht (ht_table ht1) of
              Inl e \<Rightarrow> Inl e
            | Inr newht' \<Rightarrow> Inr (ht1\<lparr>ht_table := ht_table newht', ht_size := ht_size newht'\<rparr>)))"
| "rehash_buckets n fresh newht [] = Inr newht"
| "rehash_buckets n fresh newht (b # bs) =
     (case rehash_chain n fresh newht b of
        Inl e \<Rightarrow> Inl e
      | Inr newht' \<Rightarrow> rehash_buckets n fresh newht' bs)"
| "rehash_chain n fresh newht NULL = Inr newht"
| "rehash_chain n fresh newht Indeterminate = Inl (Undefined ''next_ptr was never assigned'')"
| "rehash_chain n fresh newht (Entry k v nxt) =
     (case ht_insert n fresh newht k v of
        Inl e \<Rightarrow> Inl e
      | Inr (status, newht') \<Rightarrow> rehash_chain n fresh newht' nxt)"

declare ht_insert.simps [simp del] rehash.simps [simp del]

text \<open>\<^verbatim>\<open>ht_free\<close> follows every chain to its end.\<close>

fun chain_free :: "('k, 'v) HTentry \<Rightarrow> error + unit" where
  "chain_free NULL = Inr ()"
| "chain_free Indeterminate = Inl (Undefined ''next_ptr was never assigned'')"
| "chain_free (Entry k v nxt) = chain_free nxt"

fun chains_free :: "('k, 'v) HTentry list \<Rightarrow> error + unit" where
  "chains_free [] = Inr ()"
| "chains_free (b # bs) = (case chain_free b of Inl e \<Rightarrow> Inl e | Inr u \<Rightarrow> chains_free bs)"

definition ht_free :: "('k, 'v) HashTab \<Rightarrow> error + unit" where
  "ht_free ht =
     (if ht_size ht \<noteq> length (ht_table ht) then Inl (Undefined ''bucket index out of bounds'')
      else chains_free (ht_table ht))"

subsection \<open>The symbol table\<close>

text \<open>
  \<^verbatim>\<open>table\<close> and \<^verbatim>\<open>saved_table\<close> are pointers to hash tables, and after
  \<^verbatim>\<open>close_subroutine\<close> they are the same pointer: the tables live in a store,
  \<open>heap\<close>, from addresses to tables, \<open>None\<close> at an address that is not
  allocated or has been freed.  \<open>uninit_next\<close> is the value a \<^verbatim>\<open>next_ptr\<close>
  that was never assigned holds.
\<close>

record symtab =
  heap :: "nat \<Rightarrow> (string, IDprop) HashTab option"
  next_addr :: nat
  table :: "nat option"
  saved_table :: "nat option"
  curr_offset :: nat
  uninit_next :: "(string, IDprop) HTentry"

text \<open>The unsigned arithmetic of \<^verbatim>\<open>shift_hash\<close>, modulo \<open>2^32\<close>.\<close>

fun upower_loop :: "nat \<Rightarrow> nat \<Rightarrow> nat \<Rightarrow> nat" where
  "upower_loop 0 num newnum = newnum"
| "upower_loop (Suc i) num newnum = upower_loop i num ((newnum * num) mod 4294967296)"

definition upower :: "nat \<Rightarrow> nat \<Rightarrow> nat" where
  "upower num ex = upower_loop ex num num"

text \<open>A \<^verbatim>\<open>char\<close> converted to \<^verbatim>\<open>unsigned int\<close>; \<^verbatim>\<open>char\<close> is signed.\<close>

definition char_unsigned :: "char \<Rightarrow> nat" where
  "char_unsigned c = (if of_char c < (128 :: nat) then of_char c else 4294967296 - 256 + of_char c)"

text \<open>The inner loop of \<^verbatim>\<open>shift_hash\<close>, with \<open>j\<close> from the length of the key down to 1.\<close>

fun shift_hash_inner :: "nat \<Rightarrow> char \<Rightarrow> nat \<Rightarrow> nat" where
  "shift_hash_inner 0 c hash = hash"
| "shift_hash_inner (Suc j) c hash =
     shift_hash_inner j c ((hash + char_unsigned c * upower (39 + 1) (Suc j + 1)) mod 4294967296)"

definition shift_hash :: "string \<Rightarrow> nat \<Rightarrow> nat" where
  "shift_hash key sz = fold (\<lambda>c hash. shift_hash_inner (length key) c hash) key 0 mod sz"

definition key_strcmp :: "string \<Rightarrow> string \<Rightarrow> int" where
  "key_strcmp val1 val2 = strcmp val1 val2"

definition new_table :: "symtab \<Rightarrow> nat \<times> symtab" where
  "new_table st =
     (next_addr st,
      st\<lparr>heap := (heap st)(next_addr st := Some (ht_init (3 / 4) shift_hash key_strcmp)),
         next_addr := next_addr st + 1\<rparr>)"

text \<open>The statics of the unit when the program starts.\<close>

definition initial_symtab :: "(string, IDprop) HTentry \<Rightarrow> symtab" where
  "initial_symtab fresh =
     \<lparr>heap = (\<lambda>a. None), next_addr = 0, table = None, saved_table = None, curr_offset = 0,
      uninit_next = fresh\<rparr>"

definition init_symbol_table :: "symtab \<Rightarrow> symtab" where
  "init_symbol_table st =
     (let (a, st1) = new_table (st\<lparr>saved_table := None\<rparr>)
      in st1\<lparr>table := Some a, curr_offset := 1\<rparr>)"

text \<open>The hash table a pointer leads to.\<close>

definition deref :: "symtab \<Rightarrow> nat option \<Rightarrow> error + (string, IDprop) HashTab" where
  "deref st p =
     (case p of
        None \<Rightarrow> Inl (Undefined ''null hash table'')
      | Some a \<Rightarrow>
          (case heap st a of
             None \<Rightarrow> Inl (Undefined ''freed hash table'')
           | Some ht \<Rightarrow> Inr ht))"

text \<open>
  \<^verbatim>\<open>find_name(id, &prop)\<close>: the result and the pointer \<^verbatim>\<open>prop\<close> after the call.
  \<open>prop\<close> is the pointer before the call, \<open>None\<close> for one that was never
  assigned.
\<close>

definition find_name :: "symtab \<Rightarrow> string \<Rightarrow> IDprop option \<Rightarrow> error + (bool \<times> IDprop option)" where
  "find_name st ident prop =
     (case deref st (table st) of
        Inl e \<Rightarrow> Inl e
      | Inr ht \<Rightarrow>
          (case ht_search ht ident of
             Inl e \<Rightarrow> Inl e
           | Inr (Some p) \<Rightarrow> Inr (True, Some p)
           | Inr None \<Rightarrow>
               (if saved_table st \<noteq> None then
                  (case deref st (saved_table st) of
                     Inl e \<Rightarrow> Inl e
                   | Inr sht \<Rightarrow>
                       (case ht_search sht ident of
                          Inl e \<Rightarrow> Inl e
                        | Inr (Some p) \<Rightarrow> Inr (IS_CALLABLE_TYPE (vtype p), Some p)
                        | Inr None \<Rightarrow> Inr (False, prop)))
                else Inr (False, prop))))"

definition insert_name :: "nat \<Rightarrow> symtab \<Rightarrow> string \<Rightarrow> IDprop \<Rightarrow> error + (bool \<times> symtab)" where
  "insert_name fuel st ident prop =
     (case find_name st ident (Some prop) of
        Inl e \<Rightarrow> Inl e
      | Inr (True, prop') \<Rightarrow> Inr (False, st)
      | Inr (False, prop') \<Rightarrow>
          (case deref st (table st) of
             Inl e \<Rightarrow> Inl e
           | Inr ht \<Rightarrow>
               (case ht_insert fuel (uninit_next st) ht ident (the prop') of
                  Inl e \<Rightarrow> Inl e
                | Inr (status, ht') \<Rightarrow>
                    (let st1 = st\<lparr>heap := (heap st)(the (table st) := Some ht')\<rparr>
                     in Inr (True,
                             if IS_VARIABLE (vtype (the prop'))
                             then st1\<lparr>curr_offset := (curr_offset st1 + 1) mod 4294967296\<rparr> else st1)))))"

definition open_subroutine :: "nat \<Rightarrow> symtab \<Rightarrow> string \<Rightarrow> IDprop \<Rightarrow> error + (bool \<times> symtab)" where
  "open_subroutine fuel st ident prop =
     (case insert_name fuel st ident prop of
        Inl e \<Rightarrow> Inl e
      | Inr (b, st1) \<Rightarrow>
          if b then
            (let (a, st2) = new_table (st1\<lparr>saved_table := table st1\<rparr>)
             in Inr (b, st2\<lparr>table := Some a, curr_offset := 0\<rparr>))
          else Inr (b, st1))"

definition close_subroutine :: "symtab \<Rightarrow> error + symtab" where
  "close_subroutine st =
     (case deref st (table st) of
        Inl e \<Rightarrow> Inl e
      | Inr ht \<Rightarrow>
          (case ht_free ht of
             Inl e \<Rightarrow> Inl e
           | Inr u \<Rightarrow> Inr (st\<lparr>heap := (heap st)(the (table st) := None), table := saved_table st\<rparr>)))"

definition get_variables_width :: "symtab \<Rightarrow> nat" where
  "get_variables_width st = curr_offset st"

definition release_symbol_table :: "symtab \<Rightarrow> error + symtab" where
  "release_symbol_table st =
     (case deref st (table st) of
        Inl e \<Rightarrow> Inl e
      | Inr ht \<Rightarrow>
          (case ht_free ht of
             Inl e \<Rightarrow> Inl e
           | Inr u \<Rightarrow> Inr (st\<lparr>heap := (heap st)(the (table st) := None)\<rparr>)))"

subsubsection \<open>Notions the properties of the tables are stated with\<close>


definition nine_entries :: "(string \<times> nat) list" where
  "nine_entries = [(''x'', 1), (''f'', 2), (''a'', 3), (''b'', 4), (''c'', 5), (''d'', 6),
                   (''e'', 7), (''g'', 8), (''h'', 9)]"

text \<open>The table after these nine insertions into a new table, and the same table rehashed.\<close>

definition nine_table :: "(string, nat) HTentry \<Rightarrow> (string, nat) HashTab" where
  "nine_table fresh =
     \<lparr>ht_table =
       [Entry ''h'' 9 fresh, NULL, NULL, Entry ''x'' 1 fresh, NULL, NULL, Entry ''a'' 3 fresh,
        Entry ''b'' 4 fresh, Entry ''c'' 5 fresh, Entry ''d'' 6 fresh, Entry ''e'' 7 fresh,
        Entry ''f'' 2 fresh, Entry ''g'' 8 fresh],
      ht_size = 13, ht_num_entries = 10, ht_max_loadfactor = 3 / 4, ht_idx = 4,
      ht_hash = shift_hash, ht_cmp = key_strcmp\<rparr>"

definition nine_rehashed :: "(string, nat) HTentry \<Rightarrow> (string, nat) HashTab" where
  "nine_rehashed fresh =
     \<lparr>ht_table =
       [NULL, NULL, Entry ''a'' 3 fresh, Entry ''c'' 5 fresh, Entry ''e'' 7 fresh,
        Entry ''g'' 8 fresh, NULL, NULL, NULL, NULL, NULL, NULL, NULL, NULL, NULL, NULL, NULL,
        NULL, Entry ''b'' 4 fresh, Entry ''d'' 6 fresh, Entry ''f'' 2 fresh,
        Entry ''h'' 9 fresh, NULL, NULL, NULL, NULL, NULL, NULL, NULL, Entry ''x'' 1 fresh,
        NULL],
      ht_size = 31, ht_num_entries = 10, ht_max_loadfactor = 3 / 4, ht_idx = 5,
      ht_hash = shift_hash, ht_cmp = key_strcmp\<rparr>"


text \<open>Calls of the interface of the symbol table, in sequence.\<close>

datatype sym_op = Insert_name string IDprop | Open_subroutine string IDprop | Close_subroutine

fun run_sym_ops :: "nat \<Rightarrow> symtab \<Rightarrow> sym_op list \<Rightarrow> error + (bool list \<times> symtab)" where
  "run_sym_ops fuel st [] = Inr ([], st)"
| "run_sym_ops fuel st (Insert_name i p # ops) =
     (case insert_name fuel st i p of
        Inl e \<Rightarrow> Inl e
      | Inr (b, st') \<Rightarrow>
          (case run_sym_ops fuel st' ops of Inl e \<Rightarrow> Inl e | Inr (bs, st'') \<Rightarrow> Inr (b # bs, st'')))"
| "run_sym_ops fuel st (Open_subroutine i p # ops) =
     (case open_subroutine fuel st i p of
        Inl e \<Rightarrow> Inl e
      | Inr (b, st') \<Rightarrow>
          (case run_sym_ops fuel st' ops of Inl e \<Rightarrow> Inl e | Inr (bs, st'') \<Rightarrow> Inr (b # bs, st'')))"
| "run_sym_ops fuel st (Close_subroutine # ops) =
     (case close_subroutine st of
        Inl e \<Rightarrow> Inl e
      | Inr st' \<Rightarrow> run_sym_ops fuel st' ops)"

text \<open>The results of the calls, and then of \<^verbatim>\<open>find_name\<close> on a name.\<close>

definition find_after :: "nat \<Rightarrow> symtab \<Rightarrow> sym_op list \<Rightarrow> string \<Rightarrow> error + (bool list \<times> bool \<times> IDprop option)" where
  "find_after fuel st ops ident =
     (case run_sym_ops fuel st ops of
        Inl e \<Rightarrow> Inl e
      | Inr (bs, st') \<Rightarrow>
          (case find_name st' ident None of
             Inl e \<Rightarrow> Inl e
           | Inr r \<Rightarrow> Inr (bs, r)))"

text \<open>
  A global scope that binds \<open>x\<close> to a variable (offset 1) and \<open>f\<close> to a
  function, with the scope of \<open>f\<close> open and empty.
\<close>

definition outer_x :: IDprop where
  "outer_x = mk_idprop TYPE_INTEGER 1 0 None"

definition inner_x :: IDprop where
  "inner_x = mk_idprop TYPE_BOOLEAN 0 0 None"

definition callable_f :: IDprop where
  "callable_f = mk_idprop (SET_AS_CALLABLE TYPE_INTEGER) 0 0 (Some [])"

definition global_x_table :: "(string, IDprop) HTentry \<Rightarrow> (string, IDprop) HashTab" where
  "global_x_table fresh =
     (ht_init (3 / 4) shift_hash key_strcmp)
       \<lparr>ht_table := (replicate 13 NULL)[3 := Entry ''x'' outer_x fresh, 11 := Entry ''f'' callable_f fresh],
        ht_num_entries := 3\<rparr>"

definition shadow_state :: "(string, IDprop) HTentry \<Rightarrow> symtab" where
  "shadow_state fresh =
     \<lparr>heap = ((\<lambda>a. None)(0 := Some (global_x_table fresh)))
                 (1 := Some (ht_init (3 / 4) shift_hash key_strcmp)),
      next_addr = 2, table = Some 1, saved_table = Some 0, curr_offset = 0,
      uninit_next = fresh\<rparr>"


section \<open>Properties of the scanner\<close>

subsection \<open>Evaluation and auxiliary facts\<close>

lemmas scan_eval = init_scanner_def next_char_def get_token.simps skip_whitespace.simps Let_def set_col_def
  get_token_switch_def isalpha_def isdigit_def isprint_def process_number_def process_number_loop.simps
  INT_MAX_def int32_def leprintf_def initial_token_def skip_comment.simps skip_comment_loop.simps
  process_string_def process_string_loop.simps illegal_escapes_def char_of_ch_def
  MAX_INITIAL_STRING_LEN_def comment_stack.simps single_def newlines_def consumed_def
  grow_def outside_block_def


lemma int32_id: "0 \<le> x \<Longrightarrow> x \<le> INT_MAX \<Longrightarrow> int32 x = x"
  by (simp add: int32_def INT_MAX_def)

lemma digit_range: "isdigit c \<Longrightarrow> 0 \<le> int (of_char c) - 48 \<and> int (of_char c) - 48 \<le> 9"
  by (auto simp: isdigit_def)

lemma accepted_digit_no_overflow:
  "0 \<le> v \<Longrightarrow> 0 \<le> d \<Longrightarrow> d \<le> 9 \<Longrightarrow> v \<le> (INT_MAX - d) div 10 \<Longrightarrow> 0 \<le> 10 * v + d \<and> 10 * v + d \<le> INT_MAX"
  by (auto simp: INT_MAX_def)

lemma process_number_loop_step:
  assumes "0 \<le> v" "ch s = Some c" "isdigit c"
  shows "process_number_loop v s =
     (if v \<le> (INT_MAX - (int (of_char c) - 48)) div 10
      then process_number_loop (10 * v + (int (of_char c) - 48)) (next_char s)
      else Inl (Fatal (position s) ''number too large''))"
proof -
  let ?d = "int (of_char c) - 48"
  have d: "0 \<le> ?d \<and> ?d \<le> 9" using assms(3) by (rule digit_range)
  show ?thesis
  proof (cases "v \<le> (INT_MAX - ?d) div 10")
    case True
    then have "int32 (10 * v + ?d) = 10 * v + ?d"
      using accepted_digit_no_overflow [of v ?d] d assms(1) int32_id by blast
    then show ?thesis
      using True assms by (subst process_number_loop.simps) (simp add: Let_def)
  next
    case False
    then show ?thesis
      using assms by (subst process_number_loop.simps) (simp add: Let_def leprintf_def)
  qed
qed

lemma process_number_loop_bound:
  "0 \<le> v \<Longrightarrow> v \<le> INT_MAX \<Longrightarrow> process_number_loop v s = Inr (v', s') \<Longrightarrow> 0 \<le> v' \<and> v' \<le> INT_MAX"
proof (induction v s rule: process_number_loop.induct)
  case (1 v s)
  show ?case
  proof (cases "ch s")
    case None
    then show ?thesis using 1(2,3,4) by (subst (asm) process_number_loop.simps) simp
  next
    case (Some c)
    show ?thesis
    proof (cases "isdigit c")
      case False
      then show ?thesis using Some 1(2,3,4) by (subst (asm) process_number_loop.simps) simp
    next
      case True
      let ?d = "int (of_char c) - 48"
      have d: "0 \<le> ?d \<and> ?d \<le> 9" using True by (rule digit_range)
      have step: "process_number_loop v s =
         (if v \<le> (INT_MAX - ?d) div 10 then process_number_loop (10 * v + ?d) (next_char s)
          else Inl (Fatal (position s) ''number too large''))"
        using process_number_loop_step [OF 1(2) Some True] .
      show ?thesis
      proof (cases "v \<le> (INT_MAX - ?d) div 10")
        case le: True
        have nb: "0 \<le> 10 * v + ?d \<and> 10 * v + ?d \<le> INT_MAX"
          using accepted_digit_no_overflow [of v ?d] d 1(2) le by blast
        have eq: "int32 (10 * v + ?d) = 10 * v + ?d" using nb int32_id by blast
        have "process_number_loop (int32 (10 * v + ?d)) (next_char s) = Inr (v', s')"
          using step le 1(4) eq by simp
        then show ?thesis
          using 1(1) [OF Some True refl le] nb eq by simp
      next
        case False
        then show ?thesis using step 1(4) by simp
      qed
    qed
  qed
qed




lemma int32_succ: "int32 (int32 x + 1) = int32 (x + 1)"
  by (simp add: int32_def mod_simps)

lemma newlines_snoc: "newlines (xs @ [c]) = newlines xs + (if c = CHR 0x0A then 1 else 0)"
  by (simp add: newlines_def)

lemma newlines_butlast_last:
  "pre \<noteq> [] \<Longrightarrow> newlines pre = newlines (butlast pre) + (if last pre = CHR 0x0A then 1 else 0)"
  using newlines_snoc [of "butlast pre" "last pre"] by simp

lemma scan_inv_init: "scan_inv cs (init_scanner cs)"
  by (cases cs) (auto simp: scan_inv_def init_scanner_def next_char_def newlines_def int32_def)

lemma scan_inv_next_char:
  assumes "scan_inv cs s"
  shows "scan_inv cs (next_char s)"
proof -
  from assms obtain pre where pre: "cs = pre @ src_file s"
    and c: "ch s = None \<and> src_file s = [] \<or> pre \<noteq> [] \<and> ch s = Some (last pre)"
    and l: "line (position s) = int32 (1 + int (newlines (butlast pre)))"
    unfolding scan_inv_def by blast
  show ?thesis
  proof (cases "src_file s")
    case Nil
    then have "next_char s = s\<lparr>ch := None\<rparr>" by (simp add: next_char_def)
    then show ?thesis using pre l Nil unfolding scan_inv_def by auto
  next
    case (Cons x xs)
    then have ne: "pre \<noteq> []" and chs: "ch s = Some (last pre)" using c by auto
    have "cs = (pre @ [x]) @ src_file (next_char s)"
      using pre Cons by (simp add: next_char_def Let_def)
    moreover have "ch (next_char s) = Some (last (pre @ [x]))"
      using Cons by (simp add: next_char_def Let_def)
    moreover have "line (position (next_char s)) = int32 (1 + int (newlines (butlast (pre @ [x]))))"
    proof (cases "last pre = CHR 0x0A")
      case True
      then have "line (position (next_char s)) = int32 (int32 (1 + int (newlines (butlast pre))) + 1)"
        using Cons chs l by (simp add: next_char_def Let_def)
      also have "\<dots> = int32 (1 + int (newlines (butlast pre)) + 1)" by (rule int32_succ)
      finally show ?thesis using True newlines_butlast_last [OF ne] by (simp add: add.commute)
    next
      case False
      then show ?thesis
        using Cons chs l newlines_butlast_last [OF ne] by (simp add: next_char_def Let_def)
    qed
    ultimately show ?thesis unfolding scan_inv_def by blast
  qed
qed

lemma scan_inv_set_col [simp]: "scan_inv cs (set_col c s) = scan_inv cs s"
  by (simp add: scan_inv_def set_col_def)

lemma scan_inv_consumed:
  assumes "scan_inv cs s"
  shows "line (position s) = int32 (1 + int (newlines (butlast (consumed cs s))))"
proof -
  from assms obtain pre where pre: "cs = pre @ src_file s"
    and l: "line (position s) = int32 (1 + int (newlines (butlast pre)))"
    unfolding scan_inv_def by blast
  have "consumed cs s = pre"
    unfolding consumed_def by (subst (2) pre, subst pre) simp
  then show ?thesis using l by simp
qed

lemma scan_inv_process_number_loop:
  "scan_inv cs s \<Longrightarrow> process_number_loop v s = Inr (v', s') \<Longrightarrow> scan_inv cs s'"
proof (induction v s rule: process_number_loop.induct)
  case (1 v s)
  show ?case
  proof (cases "ch s")
    case None
    then show ?thesis using 1(2,3) by (subst (asm) process_number_loop.simps) simp
  next
    case (Some c)
    show ?thesis
    proof (cases "isdigit c \<and> v \<le> (INT_MAX - (int (of_char c) - 48)) div 10")
      case True
      then have "process_number_loop (int32 (10 * v + (int (of_char c) - 48))) (next_char s) = Inr (v', s')"
        using 1(3) Some by (subst (asm) process_number_loop.simps) (simp add: Let_def)
      then show ?thesis
        using 1(1) [OF Some _ refl] True scan_inv_next_char [OF 1(2)] by blast
    next
      case False
      then show ?thesis
        using 1(2,3) Some by (subst (asm) process_number_loop.simps) (auto simp: Let_def split: if_splits)
    qed
  qed
qed

lemma scan_inv_process_word_loop:
  "scan_inv cs s \<Longrightarrow> process_word_loop lx s = Inr (lx', s') \<Longrightarrow> scan_inv cs s'"
proof (induction lx s rule: process_word_loop.induct)
  case (1 lx s)
  show ?case
  proof (cases "ch s")
    case None
    then show ?thesis using 1(2,3) by (subst (asm) process_word_loop.simps) simp
  next
    case (Some c)
    show ?thesis
    proof (cases "is_word_char c \<and> length lx < MAX_ID_LENGTH")
      case True
      then have "process_word_loop (lx @ [c]) (next_char s) = Inr (lx', s')"
        using 1(3) Some by (subst (asm) process_word_loop.simps) simp
      then show ?thesis
        using 1(1) [OF Some] True scan_inv_next_char [OF 1(2)] by blast
    next
      case False
      then show ?thesis
        using 1(2,3) Some by (subst (asm) process_word_loop.simps) (auto split: if_splits)
    qed
  qed
qed

lemma scan_inv_process_string_loop:
  "scan_inv cs s \<Longrightarrow> process_string_loop str n s = Inr (str', n', s') \<Longrightarrow> scan_inv cs s'"
proof (induction str n s rule: process_string_loop.induct)
  case (1 str nstring s)
  show ?case
  proof (cases "ch s")
    case None
    then show ?thesis using 1(3,4) by (subst (asm) process_string_loop.simps) simp
  next
    case (Some c)
    consider (quote) "c = CHR 0x22" | (np) "c \<noteq> CHR 0x22" "\<not> isprint c"
      | (esc) "c \<noteq> CHR 0x22" "isprint c" "c = CHR 0x5C"
      | (plain) "c \<noteq> CHR 0x22" "isprint c" "c \<noteq> CHR 0x5C" by blast
    then show ?thesis
    proof cases
      case quote
      then show ?thesis using Some 1(3,4) by (subst (asm) process_string_loop.simps) simp
    next
      case np
      then show ?thesis using Some 1(3,4) by (subst (asm) process_string_loop.simps) simp
    next
      case esc
      let ?s1 = "next_char s"
      let ?s2 = "set_col (int32 (column_number ?s1 - 1)) ?s1"
      let ?str2 = "(str @ [CHR 0x5C]) @ [char_of_ch (ch ?s2)]"
      have ni: "ch ?s2 \<notin> Some ` set illegal_escapes"
        using Some esc 1(4) by (subst (asm) process_string_loop.simps) (auto simp: Let_def split: if_splits)
      have nb: "\<not> (length str \<ge> nstring \<or> length str + 1 \<ge> nstring)"
        using Some esc ni 1(4) by (subst (asm) process_string_loop.simps) (auto simp: Let_def split: if_splits)
      have r: "process_string_loop ?str2 (grow (length ?str2) nstring) (next_char ?s2) = Inr (str', n', s')"
        using Some esc ni nb 1(4) by (subst (asm) process_string_loop.simps) (simp add: Let_def)
      have "scan_inv cs (next_char ?s2)"
        using 1(3) by (simp add: scan_inv_next_char)
      then show ?thesis
        using 1(1) [OF Some esc(1) _ esc(3) refl refl ni nb refl refl refl] esc(2) r by blast
    next
      case plain
      let ?str2 = "str @ [c]"
      have nb: "\<not> length str \<ge> nstring"
        using Some plain 1(4) by (subst (asm) process_string_loop.simps) (auto simp: Let_def split: if_splits)
      have r: "process_string_loop ?str2 (grow (length ?str2) nstring) (next_char s) = Inr (str', n', s')"
        using Some plain nb 1(4) by (subst (asm) process_string_loop.simps) (simp add: Let_def)
      have "scan_inv cs (next_char s)"
        using 1(3) by (simp add: scan_inv_next_char)
      then show ?thesis
        using 1(2) [OF Some plain(1) _ plain(3) nb refl refl] plain(2) r by blast
    qed
  qed
qed


lemma scan_inv_skip_comment:
  "scan_inv cs s \<Longrightarrow> skip_comment s = Inr s' \<Longrightarrow> scan_inv cs s'"
  "scan_inv cs t \<Longrightarrow> skip_comment_loop sp t = Inr t' \<Longrightarrow> scan_inv cs t'"
proof (induction s and sp t arbitrary: s' and t' rule: skip_comment_skip_comment_loop.induct)
  case (1 s)
  have "skip_comment_loop \<lparr>line = line (position s), col = column_number s\<rparr> (next_char s) = Inr s'"
    using 1(3) by (subst (asm) skip_comment.simps) (simp add: Let_def)
  then show ?case using 1(1) [OF refl scan_inv_next_char [OF 1(2)]] by blast
next
  case (2 start_pos s)
  show ?case
  proof (cases "ch s \<noteq> Some (CHR ''}'') \<and> ch s \<noteq> None")
    case False
    then show ?thesis using 2(4,5) by (subst (asm) skip_comment_loop.simps) (auto split: if_splits)
  next
    case outer: True
    show ?thesis
    proof (cases "ch s = Some (CHR ''{'')")
      case True
      then obtain s1 where s1: "skip_comment s = Inr s1"
        and r: "skip_comment_loop start_pos (next_char s1) = Inr t'"
        using 2(5) outer by (subst (asm) skip_comment_loop.simps) (auto split: sum.splits)
      have "scan_inv cs s1" using 2(1) [OF outer True 2(4) s1] .
      then have "scan_inv cs (next_char s1)" by (rule scan_inv_next_char)
      then show ?thesis using 2(2) [OF outer True s1 _ r] by blast
    next
      case False
      then have r: "skip_comment_loop start_pos (next_char s) = Inr t'"
        using 2(5) outer by (subst (asm) skip_comment_loop.simps) auto
      show ?thesis using 2(3) [OF outer False scan_inv_next_char [OF 2(4)] r] .
    qed
  qed
qed

lemma scan_inv_skip_whitespace: "scan_inv cs s \<Longrightarrow> scan_inv cs (skip_whitespace s)"
proof (induction s rule: skip_whitespace.induct)
  case (1 s)
  show ?case
  proof (cases "ch s = Some (CHR '' '') \<or> ch s = Some (CHR 0x09) \<or> ch s = Some (CHR 0x0A)")
    case True
    then have "skip_whitespace s = skip_whitespace (next_char s)"
      by (subst skip_whitespace.simps) simp
    then show ?thesis
      using 1(1) [OF True scan_inv_next_char [OF 1(2)]] by simp
  next
    case False
    then have "skip_whitespace s = s"
      by (subst skip_whitespace.simps) simp
    then show ?thesis using 1(2) by simp
  qed
qed

lemma scan_inv_single: "scan_inv cs s \<Longrightarrow> single token ty s = Inr (token', s') \<Longrightarrow> scan_inv cs s'"
  by (auto simp: single_def scan_inv_next_char)

lemma scan_inv_process_number:
  "scan_inv cs s \<Longrightarrow> process_number token s = Inr (token', s') \<Longrightarrow> scan_inv cs s'"
  by (auto simp: process_number_def split: sum.splits dest: scan_inv_process_number_loop)

lemma scan_inv_process_word:
  "scan_inv cs s \<Longrightarrow> process_word token s = Inr (token', s') \<Longrightarrow> scan_inv cs s'"
proof -
  assume a: "scan_inv cs s" and b: "process_word token s = Inr (token', s')"
  from b obtain lx where "process_word_loop [] (set_col (column_number s) s) = Inr (lx, s')"
    by (auto simp: process_word_def Let_def split: sum.splits if_splits)
  then show ?thesis using a scan_inv_process_word_loop [of cs "set_col (column_number s) s"] by simp
qed

lemma scan_inv_process_string:
  "scan_inv cs s \<Longrightarrow> process_string token s = Inr (token', s') \<Longrightarrow> scan_inv cs s'"
proof -
  assume a: "scan_inv cs s" and b: "process_string token s = Inr (token', s')"
  from b obtain str n s1 where l: "process_string_loop [] MAX_INITIAL_STRING_LEN s = Inr (str, n, s1)"
    and s': "s' = next_char s1"
    by (auto simp: process_string_def Let_def split: sum.splits if_splits)
  have "scan_inv cs s1" using scan_inv_process_string_loop [OF a l] .
  then show ?thesis using s' by (simp add: scan_inv_next_char)
qed

lemma scan_inv_get_token_switch:
  assumes "scan_inv cs s" "get_token_switch token s c = Inr (token', s')"
  shows "scan_inv cs s'"
proof -
  have n1: "scan_inv cs (next_char s)" using assms(1) by (rule scan_inv_next_char)
  have n2: "scan_inv cs (next_char (next_char s))" using n1 by (rule scan_inv_next_char)
  have n3: "scan_inv cs (next_char (set_col (column_number s) s))"
    using assms(1) by (simp add: scan_inv_next_char)
  show ?thesis
    using assms n1 n2 n3
    by (auto simp: get_token_switch_def Let_def single_def split: if_splits
             dest: scan_inv_process_word scan_inv_process_number scan_inv_process_string)
qed

lemma scan_inv_get_token:
  "scan_inv cs s \<Longrightarrow> get_token token s = Inr (token', s') \<Longrightarrow> scan_inv cs s'"
proof (induction token s rule: get_token.induct)
  case (1 token s0)
  let ?sw = "skip_whitespace s0"
  let ?s = "set_col (column_number ?sw) ?sw"
  have inv: "scan_inv cs ?s" using 1(2) by (simp add: scan_inv_skip_whitespace)
  show ?case
  proof (cases "ch ?s")
    case None
    then have "s' = ?s"
      using 1(3) by (subst (asm) get_token.simps) (simp add: Let_def)
    then show ?thesis using inv by simp
  next
    case (Some c)
    show ?thesis
    proof (cases "c = CHR ''{''")
      case True
      then obtain s1 where s1: "skip_comment ?s = Inr s1"
        and r: "get_token token (next_char s1) = Inr (token', s')"
        using 1(3) Some by (subst (asm) get_token.simps) (auto simp: Let_def split: sum.splits)
      have "scan_inv cs (next_char s1)"
        using scan_inv_skip_comment(1) [OF inv s1] by (rule scan_inv_next_char)
      then show ?thesis using 1(1) [OF refl refl Some True s1 _ r] by blast
    next
      case False
      then have "get_token_switch token ?s c = Inr (token', s')"
        using 1(3) Some by (subst (asm) get_token.simps) (simp add: Let_def)
      then show ?thesis using scan_inv_get_token_switch [OF inv] by blast
    qed
  qed
qed

lemma scan_inv_get_tokens:
  "scan_inv cs s \<Longrightarrow> get_tokens n token s = Inr (token', s') \<Longrightarrow> scan_inv cs s'"
proof (induction n arbitrary: token s)
  case 0
  then show ?case by simp
next
  case (Suc n)
  from Suc.prems(2) obtain t1 s1 where g: "get_token token s = Inr (t1, s1)"
    and r: "get_tokens n t1 s1 = Inr (token', s')"
    by (auto split: sum.splits)
  show ?case using Suc.IH [OF scan_inv_get_token [OF Suc.prems(1) g] r] .
qed




lemma pending_next_char:
  "ch s = Some c \<Longrightarrow> pending s = c # pending (next_char s)"
  by (cases "src_file s") (simp_all add: pending_def next_char_def Let_def)

lemma pending_set_col [simp]: "pending (set_col c s) = pending s"
  by (simp add: pending_def set_col_def split: option.splits)

lemma position_next_char:
  "ch s \<noteq> Some (CHR 0x0A) \<Longrightarrow> position (next_char s) = position s"
  by (cases "src_file s") (simp_all add: next_char_def Let_def)

lemma src_file_next_char: "src_file (next_char s) = tl (src_file s)"
  by (cases "src_file s") (simp_all add: next_char_def Let_def)

lemma src_file_reads: "src_file ((next_char ^^ k) s) = drop k (src_file s)"
proof (induction k)
  case 0
  show ?case by simp
next
  case (Suc k)
  then show ?case by (simp add: src_file_next_char drop_Suc tl_drop)
qed

lemma consumed_reads: "consumed cs ((next_char ^^ k) (init_scanner cs)) = take (Suc k) cs"
proof -
  have "src_file (init_scanner cs) = drop 1 cs"
    by (simp add: init_scanner_def src_file_next_char drop_Suc)
  then have "src_file ((next_char ^^ k) (init_scanner cs)) = drop (Suc k) cs"
    by (simp add: src_file_reads)
  then show ?thesis
    by (cases "Suc k \<le> length cs") (simp_all add: consumed_def)
qed

lemma scan_inv_reads: "scan_inv cs ((next_char ^^ k) (init_scanner cs))"
  by (induction k) (simp_all add: scan_inv_init scan_inv_next_char)

lemma newlines_take_le: "newlines (butlast (take k cs)) \<le> newlines cs"
proof -
  have "newlines (butlast (take k cs)) \<le> newlines (take k cs)"
    unfolding newlines_def butlast_conv_take by (metis filter_append append_take_drop_id length_append le_add1)
  also have "\<dots> \<le> newlines cs"
    unfolding newlines_def by (metis filter_append append_take_drop_id length_append le_add1)
  finally show ?thesis .
qed

lemma decimal_ge: "0 \<le> v \<Longrightarrow> \<forall>c \<in> set ds. isdigit c \<Longrightarrow> v \<le> decimal v ds"
proof (induction ds arbitrary: v)
  case Nil
  show ?case by simp
next
  case (Cons d ds)
  have d: "0 \<le> int (of_char d) - 48 \<and> int (of_char d) - 48 \<le> 9"
    using Cons.prems(2) digit_range [of d] by simp
  then have "10 * v + (int (of_char d) - 48) \<le> decimal (10 * v + (int (of_char d) - 48)) ds"
    using Cons.IH [of "10 * v + (int (of_char d) - 48)"] Cons.prems by simp
  then show ?case using d Cons.prems(1) by simp
qed

lemma process_number_loop_exit:
  "\<forall>c. ch s = Some c \<longrightarrow> \<not> isdigit c \<Longrightarrow> process_number_loop v s = Inr (v, s)"
  by (subst process_number_loop.simps) (simp split: option.splits)

lemma process_number_loop_decimal:
  "0 \<le> v \<Longrightarrow> v \<le> INT_MAX \<Longrightarrow> pending s = ds @ rest \<Longrightarrow> \<forall>c \<in> set ds. isdigit c \<Longrightarrow>
   rest = [] \<or> \<not> isdigit (hd rest) \<Longrightarrow>
     process_number_loop v s =
       (if decimal v ds \<le> INT_MAX then Inr (decimal v ds, (next_char ^^ length ds) s)
        else Inl (Fatal (position s) ''number too large''))"
proof (induction ds arbitrary: v s)
  case Nil
  have "\<forall>c. ch s = Some c \<longrightarrow> \<not> isdigit c"
    using Nil.prems(3,5) by (auto simp: pending_def split: option.splits)
  then have "process_number_loop v s = Inr (v, s)" by (rule process_number_loop_exit)
  then show ?case using Nil.prems(2) by simp
next
  case (Cons d ds)
  let ?d = "int (of_char d) - 48"
  let ?v = "10 * v + ?d"
  have dig: "isdigit d" using Cons.prems(4) by simp
  have d: "0 \<le> ?d \<and> ?d \<le> 9" using dig by (rule digit_range)
  have chs: "ch s = Some d"
    using Cons.prems(3) by (auto simp: pending_def split: option.splits)
  have pn: "pending (next_char s) = ds @ rest"
    using pending_next_char [OF chs] Cons.prems(3) by simp
  have nl: "ch s \<noteq> Some (CHR 0x0A)" using chs dig by (auto simp: isdigit_def)
  have step: "process_number_loop v s =
         (if v \<le> (INT_MAX - ?d) div 10 then process_number_loop ?v (next_char s)
          else Inl (Fatal (position s) ''number too large''))"
    using process_number_loop_step [OF Cons.prems(1) chs dig] .
  have all: "\<forall>c \<in> set ds. isdigit c" using Cons.prems(4) by simp
  show ?case
  proof (cases "v \<le> (INT_MAX - ?d) div 10")
    case True
    have nb: "0 \<le> ?v \<and> ?v \<le> INT_MAX"
      using accepted_digit_no_overflow [of v ?d] d Cons.prems(1) True by blast
    have "process_number_loop ?v (next_char s) =
       (if decimal ?v ds \<le> INT_MAX then Inr (decimal ?v ds, (next_char ^^ length ds) (next_char s))
        else Inl (Fatal (position (next_char s)) ''number too large''))"
      using Cons.IH [of ?v "next_char s"] nb pn all Cons.prems(5) by blast
    then show ?thesis
      using step True position_next_char [OF nl] by (simp add: funpow_swap1)
  next
    case False
    then have "INT_MAX < ?v" using d by (simp add: INT_MAX_def)
    moreover have "?v \<le> decimal ?v ds"
      using decimal_ge [of ?v ds] d Cons.prems(1) all by simp
    ultimately have "\<not> decimal v (d # ds) \<le> INT_MAX" by simp
    then show ?thesis using step False by simp
  qed
qed

lemma comment_stack_outermost:
  "comment_stack inner outer s = Inl (i, os) \<Longrightarrow> last (i # os) = last (inner # outer)"
proof (induction inner outer s rule: comment_stack.induct)
  case (1 inner outer s)
  show ?case
  proof (cases "ch s")
    case None
    then show ?thesis using 1(4) by (subst (asm) comment_stack.simps) simp
  next
    case (Some c)
    consider (close) "c = CHR ''}''" | (opn) "c \<noteq> CHR ''}''" "c = CHR ''{''"
      | (other) "c \<noteq> CHR ''}''" "c \<noteq> CHR ''{''" by blast
    then show ?thesis
    proof cases
      case close
      show ?thesis
      proof (cases outer)
        case Nil
        then show ?thesis using Some close 1(4) by (subst (asm) comment_stack.simps) simp
      next
        case (Cons r rs)
        then have "comment_stack r rs (next_char s) = Inl (i, os)"
          using Some close 1(4) by (subst (asm) comment_stack.simps) simp
        then show ?thesis using 1(1) [OF Some close Cons] Cons by simp
      qed
    next
      case opn
      then have "comment_stack \<lparr>line = line (position s), col = column_number s\<rparr> (inner # outer) (next_char s) = Inl (i, os)"
        using Some 1(4) by (subst (asm) comment_stack.simps) simp
      then show ?thesis using 1(2) [OF Some opn] by simp
    next
      case other
      then have "comment_stack inner outer (next_char s) = Inl (i, os)"
        using Some 1(4) by (subst (asm) comment_stack.simps) simp
      then show ?thesis using 1(3) [OF Some other] by simp
    qed
  qed
qed

lemma skip_comment_stack:
  "(skip_comment s = Inr s' \<longrightarrow>
      comment_stack \<lparr>line = line (position s), col = column_number s\<rparr> outer (next_char s) =
        (case outer of [] \<Rightarrow> Inr s' | r # rs \<Rightarrow> comment_stack r rs (next_char s')))
   \<and> (skip_comment s = Inl e \<longrightarrow>
      (\<exists>i os. comment_stack \<lparr>line = line (position s), col = column_number s\<rparr> outer (next_char s) = Inl (i, os)
         \<and> e = Fatal i ''comment not closed''))"
  "(skip_comment_loop sp t = Inr t' \<longrightarrow>
      comment_stack sp outer' t =
        (case outer' of [] \<Rightarrow> Inr t' | r # rs \<Rightarrow> comment_stack r rs (next_char t')))
   \<and> (skip_comment_loop sp t = Inl e' \<longrightarrow>
      (\<exists>i os. comment_stack sp outer' t = Inl (i, os) \<and> e' = Fatal i ''comment not closed''))"
proof (induction s and sp t arbitrary: s' e outer and t' e' outer' rule: skip_comment_skip_comment_loop.induct)
  case (1 s)
  have "skip_comment s = skip_comment_loop \<lparr>line = line (position s), col = column_number s\<rparr> (next_char s)"
    by (subst skip_comment.simps) (simp add: Let_def)
  then show ?case using 1 [OF refl] by simp
next
  case (2 start_pos s)
  show ?case
  proof (cases "ch s")
    case None
    have "skip_comment_loop start_pos s = Inl (Fatal start_pos ''comment not closed'')"
      using None by (subst skip_comment_loop.simps) (simp add: leprintf_def)
    moreover have "comment_stack start_pos outer' s = Inl (start_pos, outer')"
      using None by (subst comment_stack.simps) simp
    ultimately show ?thesis by auto
  next
    case (Some c)
    consider (close) "c = CHR ''}''" | (opn) "c \<noteq> CHR ''}''" "c = CHR ''{''"
      | (other) "c \<noteq> CHR ''}''" "c \<noteq> CHR ''{''" by blast
    then show ?thesis
    proof cases
      case close
      have "skip_comment_loop start_pos s = Inr s"
        using Some close by (subst skip_comment_loop.simps) simp
      moreover have "comment_stack start_pos outer' s =
          (case outer' of [] \<Rightarrow> Inr s | r # rs \<Rightarrow> comment_stack r rs (next_char s))"
        using Some close by (subst comment_stack.simps) simp
      ultimately show ?thesis by auto
    next
      case opn
      have c1: "ch s \<noteq> Some (CHR ''}'') \<and> ch s \<noteq> None" and c2: "ch s = Some (CHR ''{'')"
        using Some opn by auto
      have unf: "skip_comment_loop start_pos s =
          (case skip_comment s of Inl e \<Rightarrow> Inl e
           | Inr s1 \<Rightarrow> skip_comment_loop start_pos (next_char s1))"
        using c1 c2 by (subst skip_comment_loop.simps) simp
      have m: "comment_stack start_pos outer' s =
          comment_stack \<lparr>line = line (position s), col = column_number s\<rparr> (start_pos # outer') (next_char s)"
        using Some opn by (subst comment_stack.simps) simp
      show ?thesis
      proof (cases "skip_comment s")
        case (Inl e0)
        then obtain i os where
          "comment_stack \<lparr>line = line (position s), col = column_number s\<rparr> (start_pos # outer') (next_char s) = Inl (i, os)"
          "e0 = Fatal i ''comment not closed''"
          using 2(1) [OF c1 c2] by blast
        then show ?thesis using unf m Inl by auto
      next
        case (Inr s1)
        have "comment_stack \<lparr>line = line (position s), col = column_number s\<rparr> (start_pos # outer') (next_char s)
            = comment_stack start_pos outer' (next_char s1)"
          using 2(1) [OF c1 c2] Inr by fastforce
        then show ?thesis
          using 2(2) [OF c1 c2 Inr] unf m Inr by simp
      qed
    next
      case other
      have c1: "ch s \<noteq> Some (CHR ''}'') \<and> ch s \<noteq> None" and c2: "ch s \<noteq> Some (CHR ''{'')"
        using Some other by auto
      have unf: "skip_comment_loop start_pos s = skip_comment_loop start_pos (next_char s)"
        using c1 c2 by (subst skip_comment_loop.simps) simp
      have m: "comment_stack start_pos outer' s = comment_stack start_pos outer' (next_char s)"
        using Some other by (subst comment_stack.simps) simp
      show ?thesis using 2(3) [OF c1 c2] unf m by simp
    qed
  qed
qed

lemma skip_comment_is_stack:
  "skip_comment s =
     map_sum (\<lambda>(inner, outer). Fatal inner ''comment not closed'') id
       (comment_stack \<lparr>line = line (position s), col = column_number s\<rparr> [] (next_char s))"
proof (cases "skip_comment s")
  case (Inl e)
  then show ?thesis using skip_comment_stack(1) [where s = s and outer = "[]" and e = e] by auto
next
  case (Inr s')
  then show ?thesis using skip_comment_stack(1) [where s = s and outer = "[]" and s' = s'] by auto
qed


subsection \<open>Numbers\<close>

text \<open>
  C6.  \<^verbatim>\<open>process_number\<close> accumulates the value \<open>v\<close> from left to right: with
  the digit \<open>d\<close> as lookahead it goes on with \<open>10 * v + d\<close> exactly when
  \<open>v \<le> (INT_MAX - d) / 10\<close>, and the C \<^verbatim>\<open>int\<close> does not wrap there; otherwise it
  fails with exactly \<^verbatim>\<open>number too large\<close>; with the end of the file or a
  character that is no digit as lookahead it stops with the value \<open>v\<close> and reads
  nothing.  So for the digits \<open>ds\<close> followed by no further digit the loop
  returns their decimal value, having read exactly them, when that value is at
  most \<^verbatim>\<open>INT_MAX\<close>, and fails with \<^verbatim>\<open>number too large\<close> when it is not.  Every
  number token has a value between 0 and \<^verbatim>\<open>INT_MAX\<close>.  The literal 2147483647
  is scanned to the value 2147483647, the literal 2147483648 is the fatal
  error, and \<^verbatim>\<open>12;\<close> is scanned to the value 12 with the semicolon as lookahead.
\<close>

theorem number_overflow_check:
  "(0 \<le> v \<and> ch s = Some c \<and> isdigit c \<longrightarrow>
      process_number_loop v s =
        (if v \<le> (INT_MAX - (int (of_char c) - 48)) div 10
         then process_number_loop (10 * v + (int (of_char c) - 48)) (next_char s)
         else Inl (Fatal (position s) ''number too large'')))
   \<and> ((\<forall>c. ch s = Some c \<longrightarrow> \<not> isdigit c) \<longrightarrow> process_number_loop v s = Inr (v, s))
   \<and> (pending s = ds @ rest \<and> (\<forall>c \<in> set ds. isdigit c) \<and> (rest = [] \<or> \<not> isdigit (hd rest)) \<longrightarrow>
        process_number token s =
          (if decimal 0 ds \<le> INT_MAX
           then Inr (token\<lparr>val := decimal 0 ds, type := TOKEN_NUMBER\<rparr>, (next_char ^^ length ds) s)
           else Inl (Fatal (position s) ''number too large'')))
   \<and> (process_number token s = Inr (token', s') \<longrightarrow>
        type token' = TOKEN_NUMBER \<and> 0 \<le> val token' \<and> val token' \<le> INT_MAX)
   \<and> get_token token (init_scanner ''2147483647'') =
        Inr (token\<lparr>val := 2147483647, type := TOKEN_NUMBER\<rparr>,
             \<lparr>src_file = [], ch = None, column_number = 10, position = \<lparr>line = 1, col = 1\<rparr>\<rparr>)
   \<and> get_token token (init_scanner ''2147483648'') =
        Inl (Fatal \<lparr>line = 1, col = 1\<rparr> ''number too large'')
   \<and> get_token token (init_scanner ''12;'') =
        Inr (token\<lparr>val := 12, type := TOKEN_NUMBER\<rparr>,
             \<lparr>src_file = [], ch = Some (CHR '';''), column_number = 3, position = \<lparr>line = 1, col = 1\<rparr>\<rparr>)"
proof -
  have a: "0 \<le> v \<and> ch s = Some c \<and> isdigit c \<longrightarrow>
      process_number_loop v s =
        (if v \<le> (INT_MAX - (int (of_char c) - 48)) div 10
         then process_number_loop (10 * v + (int (of_char c) - 48)) (next_char s)
         else Inl (Fatal (position s) ''number too large''))"
    using process_number_loop_step by blast
  have x: "(\<forall>c. ch s = Some c \<longrightarrow> \<not> isdigit c) \<longrightarrow> process_number_loop v s = Inr (v, s)"
    using process_number_loop_exit by blast
  have y: "pending s = ds @ rest \<and> (\<forall>c \<in> set ds. isdigit c) \<and> (rest = [] \<or> \<not> isdigit (hd rest)) \<longrightarrow>
        process_number token s =
          (if decimal 0 ds \<le> INT_MAX
           then Inr (token\<lparr>val := decimal 0 ds, type := TOKEN_NUMBER\<rparr>, (next_char ^^ length ds) s)
           else Inl (Fatal (position s) ''number too large''))"
  proof
    assume h: "pending s = ds @ rest \<and> (\<forall>c \<in> set ds. isdigit c) \<and> (rest = [] \<or> \<not> isdigit (hd rest))"
    have "process_number_loop 0 s =
       (if decimal 0 ds \<le> INT_MAX then Inr (decimal 0 ds, (next_char ^^ length ds) s)
        else Inl (Fatal (position s) ''number too large''))"
      using process_number_loop_decimal [of 0 s ds rest] h by (simp add: INT_MAX_def)
    then show "process_number token s =
          (if decimal 0 ds \<le> INT_MAX
           then Inr (token\<lparr>val := decimal 0 ds, type := TOKEN_NUMBER\<rparr>, (next_char ^^ length ds) s)
           else Inl (Fatal (position s) ''number too large''))"
      by (simp add: process_number_def)
  qed
  have b: "process_number token s = Inr (token', s') \<longrightarrow>
        type token' = TOKEN_NUMBER \<and> 0 \<le> val token' \<and> val token' \<le> INT_MAX"
  proof
    assume p: "process_number token s = Inr (token', s')"
    then obtain v' where l: "process_number_loop 0 s = Inr (v', s')"
      and t: "token' = token\<lparr>val := v', type := TOKEN_NUMBER\<rparr>"
      by (auto simp: process_number_def split: sum.splits)
    have "0 \<le> v' \<and> v' \<le> INT_MAX"
      using process_number_loop_bound [OF _ _ l] by (simp add: INT_MAX_def)
    then show "type token' = TOKEN_NUMBER \<and> 0 \<le> val token' \<and> val token' \<le> INT_MAX"
      using t by simp
  qed
  have c: "get_token token (init_scanner ''2147483647'') =
        Inr (token\<lparr>val := 2147483647, type := TOKEN_NUMBER\<rparr>,
             \<lparr>src_file = [], ch = None, column_number = 10, position = \<lparr>line = 1, col = 1\<rparr>\<rparr>)"
    by (simp add: scan_eval)
  have d: "get_token token (init_scanner ''2147483648'') =
        Inl (Fatal \<lparr>line = 1, col = 1\<rparr> ''number too large'')"
    by (simp add: scan_eval)
  have e: "get_token token (init_scanner ''12;'') =
        Inr (token\<lparr>val := 12, type := TOKEN_NUMBER\<rparr>,
             \<lparr>src_file = [], ch = Some (CHR '';''), column_number = 3, position = \<lparr>line = 1, col = 1\<rparr>\<rparr>)"
    by (simp add: scan_eval)
  show ?thesis using a x y b c d e by blast
qed

theorem number_overflow_check_witness:
  "0 \<le> (214748364 :: int) \<and> ch (init_scanner ''7'') = Some (CHR ''7'') \<and> isdigit (CHR ''7'')
   \<and> process_number_loop 214748364 (init_scanner ''7'') =
        process_number_loop 2147483647 (next_char (init_scanner ''7''))
   \<and> ch (next_char (init_scanner ''7'')) = None
   \<and> process_number_loop 2147483647 (next_char (init_scanner ''7'')) =
        Inr (2147483647, next_char (init_scanner ''7''))
   \<and> pending (init_scanner ''42+'') = ''42'' @ ''+''
   \<and> isdigit (CHR ''4'') \<and> isdigit (CHR ''2'') \<and> \<not> isdigit (hd ''+'')
   \<and> decimal 0 ''42'' = 42
   \<and> process_number initial_token (init_scanner ''42+'') =
        Inr (initial_token\<lparr>val := 42, type := TOKEN_NUMBER\<rparr>, (next_char ^^ 2) (init_scanner ''42+''))
   \<and> 0 \<le> val (initial_token\<lparr>val := 42, type := TOKEN_NUMBER\<rparr>)
   \<and> val (initial_token\<lparr>val := 42, type := TOKEN_NUMBER\<rparr>) \<le> INT_MAX"
  using number_overflow_check [where v = 214748364 and s = "init_scanner ''7''" and c = "CHR ''7''"
      and ds = "[]" and rest = "[]" and token = initial_token and token' = initial_token
      and s' = "init_scanner ''7''"]
    number_overflow_check [where v = 2147483647 and s = "next_char (init_scanner ''7'')" and c = "CHR ''7''"
      and ds = "[]" and rest = "[]" and token = initial_token and token' = initial_token
      and s' = "init_scanner ''7''"]
    number_overflow_check [where v = 0 and c = "CHR ''4''" and token = initial_token
      and s = "init_scanner ''42+''" and ds = "''42''" and rest = "''+''"
      and token' = "initial_token\<lparr>val := 42, type := TOKEN_NUMBER\<rparr>"
      and s' = "(next_char ^^ 2) (init_scanner ''42+'')"]
  by (simp add: scan_eval pending_def eval_nat_numeral)

subsection \<open>Lines\<close>

text \<open>
  C7, as the code has it.  After \<^verbatim>\<open>init_scanner\<close> and any number \<open>k\<close> of further
  calls of \<^verbatim>\<open>next_char\<close> on the file \<open>cs\<close> the scanner has read the prefix of
  \<open>k + 1\<close> characters of \<open>cs\<close> (all of \<open>cs\<close> when it is shorter), and
  \<open>position.line\<close> is one plus the number of newlines among the characters of
  that prefix before its last one; the same holds after any number of tokens.
  The line is a C \<^verbatim>\<open>int\<close>: the equation holds of the 32-bit value for every
  file, and of the number itself for a file with fewer than \<open>2\<^sup>3\<^sup>1 - 1\<close>
  newlines.  \<^verbatim>\<open>next_char\<close> counts a newline, and sets the column to one, when it
  reads the character that follows it; reading a character that follows
  another character it leaves the line and adds one to the column; at the end
  of the file it changes neither the position nor the column, so a newline that
  ends the file is never counted.
\<close>

theorem line_counts_newlines_before_last_read:
  "line (position ((next_char ^^ k) (init_scanner cs))) =
      int32 (1 + int (newlines (butlast (take (Suc k) cs))))
   \<and> (get_tokens n token (init_scanner cs) = Inr (token', s') \<longrightarrow>
        line (position s') = int32 (1 + int (newlines (butlast (consumed cs s')))))
   \<and> (newlines cs < 2147483647 \<longrightarrow>
        line (position ((next_char ^^ k) (init_scanner cs))) =
          1 + int (newlines (butlast (take (Suc k) cs)))
        \<and> (get_tokens n token (init_scanner cs) = Inr (token', s') \<longrightarrow>
             line (position s') = 1 + int (newlines (butlast (consumed cs s')))))
   \<and> (ch s = Some (CHR 0x0A) \<and> src_file s \<noteq> [] \<longrightarrow>
        line (position (next_char s)) = int32 (line (position s) + 1) \<and> column_number (next_char s) = 1)
   \<and> (ch s \<noteq> Some (CHR 0x0A) \<and> src_file s \<noteq> [] \<longrightarrow>
        line (position (next_char s)) = line (position s)
        \<and> column_number (next_char s) = int32 (column_number s + 1))
   \<and> (src_file s = [] \<longrightarrow>
        position (next_char s) = position s \<and> column_number (next_char s) = column_number s)"
proof -
  have a0: "line (position ((next_char ^^ k) (init_scanner cs))) =
      int32 (1 + int (newlines (butlast (take (Suc k) cs))))"
    using scan_inv_consumed [OF scan_inv_reads [of cs k]] by (simp only: consumed_reads)
  have a: "get_tokens n token (init_scanner cs) = Inr (token', s') \<longrightarrow>
      line (position s') = int32 (1 + int (newlines (butlast (consumed cs s'))))"
    using scan_inv_get_tokens [OF scan_inv_init] scan_inv_consumed by blast
  have u: "newlines cs < 2147483647 \<longrightarrow>
        line (position ((next_char ^^ k) (init_scanner cs))) =
          1 + int (newlines (butlast (take (Suc k) cs)))
        \<and> (get_tokens n token (init_scanner cs) = Inr (token', s') \<longrightarrow>
             line (position s') = 1 + int (newlines (butlast (consumed cs s'))))"
  proof
    assume b: "newlines cs < 2147483647"
    have i: "int32 (1 + int (newlines (butlast (take m cs)))) = 1 + int (newlines (butlast (take m cs)))" for m
      using newlines_take_le [of m cs] b by (intro int32_id) (simp_all add: INT_MAX_def)
    show "line (position ((next_char ^^ k) (init_scanner cs))) =
          1 + int (newlines (butlast (take (Suc k) cs)))
        \<and> (get_tokens n token (init_scanner cs) = Inr (token', s') \<longrightarrow>
             line (position s') = 1 + int (newlines (butlast (consumed cs s'))))"
      using a0 a i [of "Suc k"] i [of "length cs - length (src_file s')"] by (simp add: consumed_def)
  qed
  have b: "ch s = Some (CHR 0x0A) \<and> src_file s \<noteq> [] \<longrightarrow>
      line (position (next_char s)) = int32 (line (position s) + 1) \<and> column_number (next_char s) = 1"
    by (cases "src_file s") (simp_all add: next_char_def Let_def)
  have b': "ch s \<noteq> Some (CHR 0x0A) \<and> src_file s \<noteq> [] \<longrightarrow>
        line (position (next_char s)) = line (position s)
        \<and> column_number (next_char s) = int32 (column_number s + 1)"
    by (cases "src_file s") (simp_all add: next_char_def Let_def)
  have c: "src_file s = [] \<longrightarrow>
        position (next_char s) = position s \<and> column_number (next_char s) = column_number s"
    by (simp add: next_char_def)
  show ?thesis using a0 a u b b' c by blast
qed

theorem line_counts_newlines_before_last_read_witness:
  "line (position ((next_char ^^ Suc 0) (init_scanner [CHR 0x0A, CHR ''+'', CHR 0x0A]))) = 2
   \<and> int32 (1 + int (newlines (butlast (take (Suc (Suc 0)) [CHR 0x0A, CHR ''+'', CHR 0x0A])))) = 2
   \<and> get_tokens 1 initial_token (init_scanner [CHR 0x0A, CHR ''+'', CHR 0x0A]) =
       Inr (initial_token\<lparr>type := TOKEN_PLUS\<rparr>,
            \<lparr>src_file = [], ch = Some (CHR 0x0A), column_number = 2, position = \<lparr>line = 2, col = 1\<rparr>\<rparr>)
   \<and> newlines [CHR 0x0A, CHR ''+'', CHR 0x0A] < 2147483647
   \<and> 1 + int (newlines (butlast (consumed [CHR 0x0A, CHR ''+'', CHR 0x0A]
          \<lparr>src_file = [], ch = Some (CHR 0x0A), column_number = 2, position = \<lparr>line = 2, col = 1\<rparr>\<rparr>))) = 2
   \<and> ch (init_scanner [CHR 0x0A, CHR ''+'']) = Some (CHR 0x0A)
   \<and> src_file (init_scanner [CHR 0x0A, CHR ''+'']) \<noteq> []
   \<and> line (position (next_char (init_scanner [CHR 0x0A, CHR ''+'']))) = 2
   \<and> column_number (next_char (init_scanner [CHR 0x0A, CHR ''+''])) = 1
   \<and> ch (init_scanner ''ab'') \<noteq> Some (CHR 0x0A) \<and> src_file (init_scanner ''ab'') \<noteq> []
   \<and> line (position (next_char (init_scanner ''ab''))) = 1
   \<and> column_number (next_char (init_scanner ''ab'')) = 2
   \<and> src_file (init_scanner [CHR 0x0A]) = []
   \<and> position (next_char (init_scanner [CHR 0x0A])) = \<lparr>line = 1, col = 0\<rparr>
   \<and> column_number (next_char (init_scanner [CHR 0x0A])) = 1"
  using line_counts_newlines_before_last_read [where n = 1 and k = "Suc 0" and token = initial_token
      and cs = "[CHR 0x0A, CHR ''+'', CHR 0x0A]"
      and token' = "initial_token\<lparr>type := TOKEN_PLUS\<rparr>"
      and s' = "\<lparr>src_file = [], ch = Some (CHR 0x0A), column_number = 2, position = \<lparr>line = 2, col = 1\<rparr>\<rparr>"
      and s = "init_scanner [CHR 0x0A, CHR ''+'']"]
    line_counts_newlines_before_last_read [where n = 0 and k = 0 and token = initial_token and cs = "[]"
      and token' = initial_token and s' = "init_scanner []" and s = "init_scanner ''ab''"]
    line_counts_newlines_before_last_read [where n = 0 and k = 0 and token = initial_token and cs = "[]"
      and token' = initial_token and s' = "init_scanner []" and s = "init_scanner [CHR 0x0A]"]
  by (simp add: scan_eval)

text \<open>
  C7 as stated fails on the file that is one newline: the scanner reads it all
  and returns the end-of-file token on line 1, and one plus the number of
  newlines is 2.
\<close>

theorem trailing_newline_not_counted:
  "get_token initial_token (init_scanner [CHR 0x0A]) =
     Inr (initial_token\<lparr>type := TOKEN_EOF\<rparr>,
          \<lparr>src_file = [], ch = None, column_number = 1, position = \<lparr>line = 1, col = 1\<rparr>\<rparr>)
   \<and> 1 + int (newlines [CHR 0x0A]) = 2"
  by (simp add: scan_eval)

subsection \<open>Escapes in strings\<close>




subsection \<open>Comments\<close>

text \<open>
  C4, as the code has it.  \<^verbatim>\<open>skip_comment\<close> does what the stack of open
  comments does: it fails only at the end of the file, with exactly
  \<^verbatim>\<open>comment not closed\<close>, at the position of the opening brace of the innermost
  comment that is open there.  The brace the call started at, the outermost, is
  the bottom of that stack, so it is the reported one when every comment inside
  has been closed: for \<^verbatim>\<open>{{{}}\<close> the position is that of the first brace.
\<close>

theorem comment_not_closed_at_innermost_open:
  "skip_comment s =
     map_sum (\<lambda>(inner, outer). Fatal inner ''comment not closed'') id
       (comment_stack \<lparr>line = line (position s), col = column_number s\<rparr> [] (next_char s))
   \<and> (comment_stack \<lparr>line = line (position s), col = column_number s\<rparr> [] (next_char s) = Inl (inner, outer)
        \<longrightarrow> last (inner # outer) = \<lparr>line = line (position s), col = column_number s\<rparr>)
   \<and> get_token token (init_scanner ''{{{}}'') = Inl (Fatal \<lparr>line = 1, col = 1\<rparr> ''comment not closed'')"
proof -
  have a: "get_token token (init_scanner ''{{{}}'') = Inl (Fatal \<lparr>line = 1, col = 1\<rparr> ''comment not closed'')"
    by (simp add: scan_eval)
  show ?thesis
    using skip_comment_is_stack [of s] comment_stack_outermost [of _ "[]" "next_char s" inner outer] a
    by simp
qed

theorem comment_not_closed_at_innermost_open_witness:
  "comment_stack \<lparr>line = 1, col = 1\<rparr> [] (next_char (init_scanner ''{ {'')) =
     Inl (\<lparr>line = 1, col = 3\<rparr>, [\<lparr>line = 1, col = 1\<rparr>])
   \<and> last [\<lparr>line = 1, col = 3\<rparr>, \<lparr>line = 1, col = 1\<rparr>] = \<lparr>line = 1, col = 1\<rparr>
   \<and> skip_comment (init_scanner ''{ {'') = Inl (Fatal \<lparr>line = 1, col = 3\<rparr> ''comment not closed'')"
  using comment_not_closed_at_innermost_open [where s = "init_scanner ''{ {''"
      and inner = "\<lparr>line = 1, col = 3\<rparr>" and outer = "[\<lparr>line = 1, col = 1\<rparr>]"
      and token = initial_token]
  by (simp add: scan_eval)

text \<open>
  C4 as stated fails on the file \<^verbatim>\<open>{ {\<close>: both comments are open at the end of
  the file, the outermost brace is in column 1, and the position reported is
  that of the inner brace, column 3.
\<close>

theorem comment_not_closed_reports_inner_brace:
  "get_token initial_token (init_scanner ''{ {'') = Inl (Fatal \<lparr>line = 1, col = 3\<rparr> ''comment not closed'')"
  by (simp add: scan_eval)

section \<open>Properties of the code generator\<close>

subsection \<open>Stack depth\<close>

lemma final_depth_append: "final_depth d (xs @ ys) = final_depth (final_depth d xs) ys"
  by (induction xs arbitrary: d) auto

lemma depths_after_push_append:
  "depths_after_push d (xs @ ys) = depths_after_push d xs @ depths_after_push (final_depth d xs) ys"
  by (induction xs arbitrary: d) auto

lemma Max_insert_fold: "Max (insert m (set ds)) = fold max ds (m :: int)"
  using Max.set_eq_fold [of m ds] by simp

lemma instructions_append: "instructions (xs @ ys) = instructions xs @ instructions ys"
  by (induction xs rule: instructions.induct) auto

lemma int32_small: "- 2147483648 \<le> x \<Longrightarrow> x \<le> 2147483647 \<Longrightarrow> int32 x = x"
  by (simp add: int32_def)

lemma ensure_space_Inr:
  assumes "ensure_space n cg = Inr cg1"
  shows "ip cg1 = ip cg" "code cg1 = code cg" "stack_depth cg1 = stack_depth cg"
    "max_stack_depth cg1 = max_stack_depth cg" "code_size cg \<le> code_size cg1"
    "n \<le> code_size cg \<Longrightarrow> ip cg \<le> code_size cg \<Longrightarrow> ip cg + n \<le> code_size cg1"
  using assms by (auto simp: ensure_space_def split: if_splits)

lemma store_code_fields [simp]:
  "ip (store_code i cg) = ip cg + 1" "code (store_code i cg) = take (ip cg) (code cg) @ [i]"
  "stack_depth (store_code i cg) = stack_depth cg"
  "max_stack_depth (store_code i cg) = max_stack_depth cg"
  "code_size (store_code i cg) = code_size cg"
  by (simp_all add: store_code_def)

lemma adjust_stack_fields [simp]:
  "ip (adjust_stack b cg) = ip cg" "code (adjust_stack b cg) = code cg"
  "stack_depth (adjust_stack b cg) = int32 (int32 (stack_depth cg + push b) - pop b)"
  "max_stack_depth (adjust_stack b cg) = max (max_stack_depth cg) (int32 (stack_depth cg + push b))"
  "code_size (adjust_stack b cg) = code_size cg"
  by (simp_all add: adjust_stack_def Let_def max_def)

lemmas depth_simps = instructions_append final_depth_append depths_after_push_append

lemma cg_inv_init: "cg_inv (init_subroutine_codegen name p cg)"
  by (simp add: cg_inv_def init_subroutine_codegen_def)

lemma cg_inv_store:
  "cg_inv cg \<Longrightarrow> ip cg < code_size cg \<Longrightarrow> \<forall>c. i \<noteq> CODE_INSTRUCTION c \<Longrightarrow> cg_inv (store_code i cg)"
  by (cases i) (simp_all add: cg_inv_def depth_simps)

lemma cg_inv_store_instr:
  "cg_inv cg \<Longrightarrow> ip cg < code_size cg \<Longrightarrow>
     cg_inv (adjust_stack (instruction_set c) (store_code (CODE_INSTRUCTION c) cg))"
  by (simp add: cg_inv_def depth_simps max.commute)

text \<open>
  An instruction and the items stored after it before its effect is applied:
  the statics between the two are those of \<open>cg_inv\<close> but for the depths.
\<close>

lemma cg_inv_store_instr_operand:
  "cg_inv cg \<Longrightarrow> ip cg + 1 < code_size cg \<Longrightarrow> \<forall>c'. i \<noteq> CODE_INSTRUCTION c' \<Longrightarrow>
     cg_inv (adjust_stack (instruction_set c) (store_code i (store_code (CODE_INSTRUCTION c) cg)))"
  by (cases i) (simp_all add: cg_inv_def depth_simps max.commute)

lemma cg_inv_ensure_space:
  "cg_inv cg \<Longrightarrow> ensure_space n cg = Inr cg1 \<Longrightarrow> n \<le> 1024 \<Longrightarrow> cg_inv cg1 \<and> ip cg1 + n \<le> code_size cg1"
  using ensure_space_Inr [of n cg cg1]
  by (auto simp: cg_inv_def INITIAL_SIZE_def)

lemma cg_inv_gen_1: "cg_inv cg \<Longrightarrow> gen_1 c cg = Inr cg' \<Longrightarrow> cg_inv cg'"
  using cg_inv_ensure_space [of cg 1]
  by (auto simp: gen_1_def split: sum.splits intro!: cg_inv_store_instr)

lemma cg_inv_gen_2: "cg_inv cg \<Longrightarrow> gen_2 c n cg = Inr cg' \<Longrightarrow> cg_inv cg'"
  using cg_inv_ensure_space [of cg 2]
  by (auto simp: gen_2_def split: sum.splits intro!: cg_inv_store_instr_operand)

lemma cg_inv_gen_label: "cg_inv cg \<Longrightarrow> gen_label l cg = Inr cg' \<Longrightarrow> cg_inv cg'"
  using cg_inv_ensure_space [of cg 1]
  by (auto simp: gen_label_def split: sum.splits intro!: cg_inv_store)

lemma cg_inv_gen_2_label: "cg_inv cg \<Longrightarrow> gen_2_label c l cg = Inr cg' \<Longrightarrow> cg_inv cg'"
  using cg_inv_ensure_space [of cg 2]
  by (auto simp: gen_2_label_def split: sum.splits intro!: cg_inv_store_instr_operand)

lemma cg_inv_label_update: "cg_inv (cg\<lparr>label := l\<rparr>) = cg_inv cg"
  by (simp add: cg_inv_def)

lemma and_then_Inr: "and_then m f = Inr y \<Longrightarrow> \<exists>x. m = Inr x \<and> f x = Inr y"
  by (cases m) (simp_all add: and_then_def)

lemma cg_inv_gen_cmp:
  assumes "cg_inv cg" "gen_cmp c cg = Inr cg'"
  shows "cg_inv cg'"
proof -
  let ?l1 = "label cg"
  let ?l2 = "int32 (label cg + 1)"
  let ?cg2 = "cg\<lparr>label := int32 (label cg + 1)\<rparr>\<lparr>label := int32 (int32 (label cg + 1) + 1)\<rparr>"
  have i2: "cg_inv ?cg2" using assms(1) by (simp add: cg_inv_def)
  from assms(2) obtain cg3 cg4 cg5 cg6 cg7 where
    s: "gen_2_label c ?l1 ?cg2 = Inr cg3" "gen_2 JVM_LDC 0 cg3 = Inr cg4"
       "gen_2_label JVM_GOTO ?l2 cg4 = Inr cg5" "gen_label ?l1 cg5 = Inr cg6"
       "gen_2 JVM_LDC 1 cg6 = Inr cg7" "gen_label ?l2 cg7 = Inr cg'"
    unfolding gen_cmp_def get_label_def Let_def prod.case
    by (auto dest!: and_then_Inr)
  show ?thesis
    using i2 s cg_inv_gen_2_label cg_inv_gen_2 cg_inv_gen_label by blast
qed

lemma cg_inv_gen_newarray: "cg_inv cg \<Longrightarrow> gen_newarray a cg = Inr cg' \<Longrightarrow> cg_inv cg'"
  using cg_inv_ensure_space [of cg 2]
  by (auto simp: gen_newarray_def simp del: instruction_set.simps split: sum.splits intro!: cg_inv_store_instr_operand)

lemma cg_inv_gen_call: "cg_inv cg \<Longrightarrow> gen_call f p cg = Inr cg' \<Longrightarrow> cg_inv cg'"
  using cg_inv_ensure_space [of cg 2]
  by (auto simp: gen_call_def simp del: instruction_set.simps split: sum.splits if_splits intro!: cg_inv_store_instr_operand)

lemma cg_inv_gen_read: "cg_inv cg \<Longrightarrow> gen_read t cg = Inr cg' \<Longrightarrow> cg_inv cg'"
  using cg_inv_ensure_space [of cg 2]
  by (auto simp: gen_read_def Let_def simp del: instruction_set.simps split: sum.splits if_splits intro!: cg_inv_store_instr_operand)

lemma cg_inv_gen_print: "cg_inv cg \<Longrightarrow> gen_print t cg = Inr cg' \<Longrightarrow> cg_inv cg'"
proof -
  assume a: "cg_inv cg" and b: "gen_print t cg = Inr cg'"
  from b obtain cg0 where e: "ensure_space 5 cg = Inr cg0"
    by (auto simp: gen_print_def split: sum.splits)
  have i0: "cg_inv cg0" and sp: "ip cg0 + 5 \<le> code_size cg0"
    using cg_inv_ensure_space [OF a e] by simp_all
  show ?thesis
    using b e i0 sp
    by (auto simp: gen_print_def Let_def cg_inv_def depth_simps max.commute max.assoc
             split: if_splits)
qed

lemma cg_inv_gen_print_string: "cg_inv cg \<Longrightarrow> gen_print_string str cg = Inr cg' \<Longrightarrow> cg_inv cg'"
proof -
  assume a: "cg_inv cg" and b: "gen_print_string str cg = Inr cg'"
  from b obtain cg0 where e: "ensure_space 6 cg = Inr cg0"
    by (auto simp: gen_print_string_def split: sum.splits)
  have i0: "cg_inv cg0" and sp: "ip cg0 + 6 \<le> code_size cg0"
    using cg_inv_ensure_space [OF a e] by simp_all
  show ?thesis
    using b e i0 sp
    by (auto simp: gen_print_string_def Let_def cg_inv_def depth_simps max.commute max.assoc)
qed

lemma cg_inv_run_emit:
  assumes "cg_inv cg" "run_emit e cg = Inr cg'"
  shows "cg_inv cg'"
  using assms
  by (cases e)
     (auto simp: get_label_def cg_inv_label_update
        dest: cg_inv_gen_1 cg_inv_gen_2 cg_inv_gen_label cg_inv_gen_2_label cg_inv_gen_cmp
        cg_inv_gen_newarray cg_inv_gen_print_string cg_inv_gen_call cg_inv_gen_print cg_inv_gen_read)

lemma cg_inv_run_emits: "cg_inv cg \<Longrightarrow> run_emits es cg = Inr cg' \<Longrightarrow> cg_inv cg'"
proof (induction es arbitrary: cg)
  case Nil
  then show ?case by simp
next
  case (Cons e es)
  from Cons.prems(2) obtain cg1 where e: "run_emit e cg = Inr cg1" and r: "run_emits es cg1 = Inr cg'"
    by (auto split: sum.splits)
  show ?case using Cons.IH [OF cg_inv_run_emit [OF Cons.prems(1) e] r] .
qed

lemma fold_max_ge: "m \<le> fold max ds (m :: int)"
proof (induction ds arbitrary: m)
  case Nil
  show ?case by simp
next
  case (Cons d ds)
  have "max d m \<le> fold max ds (max d m)" by (rule Cons.IH)
  then show ?case by simp
qed

lemma push_small: "0 \<le> push (instruction_set c) \<and> push (instruction_set c) \<le> 2"
  by (cases c) (simp_all add: bc_def)

lemma Max_depths_nonempty:
  assumes "cs \<noteq> []"
  shows "Max (insert 0 (set (depths_after_push 0 (map instruction_set cs)))) =
         Max (set (depths_after_push 0 (map instruction_set cs)))"
proof -
  obtain c cs' where cs: "cs = c # cs'" using assms by (cases cs) auto
  let ?S = "set (depths_after_push 0 (map instruction_set cs))"
  have fin: "finite ?S" and ne: "?S \<noteq> {}" using cs by auto
  have "int32 (push (instruction_set c)) = push (instruction_set c)"
    using push_small [of c] by (intro int32_small) simp_all
  then have "push (instruction_set c) \<in> ?S" using cs by simp
  then have "0 \<le> Max ?S"
    using push_small [of c] Max_ge [OF fin, of "push (instruction_set c)"] by linarith
  then show ?thesis using fin ne by (simp add: max_def)
qed

subsection \<open>The list of bodies\<close>

lemma link_loop_Some:
  assumes "link_loop n p = Some r"
  shows "tl n = []"
proof (rule link_loop.raw_induct [where P = "\<lambda>n p r. tl n = []" and n = n and p = p and y = r])
  fix ll :: "Body list \<Rightarrow> Body list \<Rightarrow> Body list option" and n' p' r' :: "Body list"
  assume ih: "\<And>n p r. ll n p = Some r \<Longrightarrow> tl n = []"
    and st: "(if tl n' \<noteq> [] then ll n' (tl n') else Some p') = Some r'"
  show "tl n' = []"
  proof (rule ccontr)
    assume ne: "tl n' \<noteq> []"
    then have "ll n' (tl n') = Some r'" using st by simp
    then show False using ih ne by blast
  qed
next
  show "link_loop n p = Some r" using assms .
qed

lemma link_loop_diverges: "tl n \<noteq> [] \<Longrightarrow> link_loop n p = None"
  using link_loop_Some [of n p] by (cases "link_loop n p") auto

lemma link_loop_returns: "tl n = [] \<Longrightarrow> link_loop n p = Some p"
  by (subst link_loop.simps) simp

lemma close_subroutine_codegen_cases:
  "close_subroutine_codegen varwidth cg =
     (if length (bodies cg) < 2 then Some (cg\<lparr>bodies := bodies cg @ [new_body varwidth cg]\<rparr>)
      else None)"
proof (cases "bodies cg")
  case Nil
  then show ?thesis by (simp add: close_subroutine_codegen_def new_body_def)
next
  case (Cons b bs)
  show ?thesis
  proof (cases bs)
    case Nil
    then show ?thesis
      using Cons link_loop_returns [of "[b]" "[]"]
      by (simp add: close_subroutine_codegen_def new_body_def)
  next
    case (Cons b' bs')
    then have "link_loop (bodies cg) [] = None"
      using \<open>bodies cg = b # bs\<close> by (intro link_loop_diverges) simp
    then show ?thesis
      using Cons \<open>bodies cg = b # bs\<close> by (simp add: close_subroutine_codegen_def)
  qed
qed

subsection \<open>The maximum stack depth of a body\<close>

text \<open>
  C5.  \<^verbatim>\<open>adjust_stack\<close> adds the push count to \<^verbatim>\<open>stack_depth\<close>, raises
  \<^verbatim>\<open>max_stack_depth\<close> to the sum if it is larger, and then subtracts the pop
  count.  Whatever the parser emits for a subroutine, from
  \<^verbatim>\<open>init_subroutine_codegen\<close> on, every emitting function applies the effect of
  every instruction it stores, in the order of the code: so
  \<^verbatim>\<open>max_stack_depth\<close> is never negative and is the greatest of the values
  \<^verbatim>\<open>stack_depth\<close> has right after the push of each instruction of the code (and
  0 for no instruction), and it is the value \<^verbatim>\<open>close_subroutine_codegen\<close> stores
  in the body.  The code is \<^verbatim>\<open>code[0..ip-1]\<close> and \<open>ip\<close> does not exceed the size
  of the buffer.
\<close>

theorem max_stack_depth_is_greatest_depth_after_push:
  "stack_depth (adjust_stack b cg0) = int32 (int32 (stack_depth cg0 + push b) - pop b)
   \<and> max_stack_depth (adjust_stack b cg0) = max (max_stack_depth cg0) (int32 (stack_depth cg0 + push b))
   \<and> (run_emits es (init_subroutine_codegen name p cg0) = Inr cg \<longrightarrow>
        0 \<le> max_stack_depth cg
        \<and> ip cg = length (code cg) \<and> ip cg \<le> code_size cg
        \<and> stack_depth cg = final_depth 0 (map instruction_set (instructions (code cg)))
        \<and> max_stack_depth cg =
            Max (insert 0 (set (depths_after_push 0 (map instruction_set (instructions (code cg))))))
        \<and> (instructions (code cg) \<noteq> [] \<longrightarrow>
             max_stack_depth cg =
               Max (set (depths_after_push 0 (map instruction_set (instructions (code cg))))))
        \<and> (close_subroutine_codegen w cg = Some cg' \<longrightarrow>
             body_code (last (bodies cg')) = code cg
             \<and> body_max_stack_depth (last (bodies cg')) = max_stack_depth cg))"
proof -
  have a: "stack_depth (adjust_stack b cg0) = int32 (int32 (stack_depth cg0 + push b) - pop b)
      \<and> max_stack_depth (adjust_stack b cg0) = max (max_stack_depth cg0) (int32 (stack_depth cg0 + push b))"
    by simp
  have b: "0 \<le> max_stack_depth cg
        \<and> ip cg = length (code cg) \<and> ip cg \<le> code_size cg
        \<and> stack_depth cg = final_depth 0 (map instruction_set (instructions (code cg)))
        \<and> max_stack_depth cg =
            Max (insert 0 (set (depths_after_push 0 (map instruction_set (instructions (code cg))))))
        \<and> (instructions (code cg) \<noteq> [] \<longrightarrow>
             max_stack_depth cg =
               Max (set (depths_after_push 0 (map instruction_set (instructions (code cg))))))
        \<and> (close_subroutine_codegen w cg = Some cg' \<longrightarrow>
             body_code (last (bodies cg')) = code cg
             \<and> body_max_stack_depth (last (bodies cg')) = max_stack_depth cg)"
    if r: "run_emits es (init_subroutine_codegen name p cg0) = Inr cg"
  proof -
    have inv: "cg_inv cg" using cg_inv_run_emits [OF cg_inv_init r] .
    have m: "max_stack_depth cg =
        Max (insert 0 (set (depths_after_push 0 (map instruction_set (instructions (code cg))))))"
      using inv by (simp add: cg_inv_def Max_insert_fold)
    have nn: "0 \<le> max_stack_depth cg"
      using inv fold_max_ge [of 0] by (simp add: cg_inv_def)
    have ne: "instructions (code cg) \<noteq> [] \<longrightarrow>
        max_stack_depth cg =
          Max (set (depths_after_push 0 (map instruction_set (instructions (code cg)))))"
      using m Max_depths_nonempty by simp
    have cl: "close_subroutine_codegen w cg = Some cg' \<longrightarrow>
        body_code (last (bodies cg')) = code cg
        \<and> body_max_stack_depth (last (bodies cg')) = max_stack_depth cg"
      by (auto simp: close_subroutine_codegen_cases new_body_def split: if_splits)
    show ?thesis using inv m nn ne cl by (simp add: cg_inv_def)
  qed
  show ?thesis using a b by blast
qed

theorem max_stack_depth_is_greatest_depth_after_push_witness:
  "run_emits [Gen_2 JVM_LDC 7, Gen_2 JVM_LDC 8, Gen_1 JVM_IADD, Gen_1 JVM_IRETURN]
       (init_subroutine_codegen ''f'' (mk_idprop TYPE_CALLABLE 0 0 None) initial_codegen) =
     Inr witness_code
   \<and> depths_after_push 0 (map instruction_set [JVM_LDC, JVM_LDC, JVM_IADD, JVM_IRETURN]) = [1, 2, 3, 1]
   \<and> Max (set [1, 2, 3, 1 :: int]) = 3
   \<and> instructions (code witness_code) \<noteq> []
   \<and> close_subroutine_codegen 1 witness_code =
        Some (witness_code\<lparr>bodies := [new_body 1 witness_code]\<rparr>)
   \<and> body_max_stack_depth (last (bodies (witness_code\<lparr>bodies := [new_body 1 witness_code]\<rparr>))) = 3"
  using max_stack_depth_is_greatest_depth_after_push
    [where es = "[Gen_2 JVM_LDC 7, Gen_2 JVM_LDC 8, Gen_1 JVM_IADD, Gen_1 JVM_IRETURN]"
       and name = "''f''" and p = "mk_idprop TYPE_CALLABLE 0 0 None" and ?cg0.0 = initial_codegen
       and w = 1 and cg = witness_code and b = "instruction_set JVM_LDC"
       and cg' = "witness_code\<lparr>bodies := [new_body 1 witness_code]\<rparr>"]
  by (simp add: close_subroutine_codegen_cases new_body_def initial_codegen_def witness_code_def
        init_subroutine_codegen_def gen_1_def gen_2_def store_code_def ensure_space_def
        adjust_stack_def Let_def bc_def INITIAL_SIZE_def mk_idprop_def int32_def INT_MAX_def)

section \<open>Properties of the hash table and the symbol table\<close>

subsection \<open>Auxiliary facts\<close>


lemma hash_values_13:
  "shift_hash ''x'' 13 = 3" "shift_hash ''f'' 13 = 11" "shift_hash ''a'' 13 = 6"
  "shift_hash ''b'' 13 = 7" "shift_hash ''c'' 13 = 8" "shift_hash ''d'' 13 = 9"
  "shift_hash ''e'' 13 = 10" "shift_hash ''g'' 13 = 12" "shift_hash ''h'' 13 = 0"
  "shift_hash ''n'' 13 = 6"
  by (simp_all add: shift_hash_def upower_def char_unsigned_def)

lemma hash_values_31:
  "shift_hash ''x'' 31 = 29" "shift_hash ''f'' 31 = 20" "shift_hash ''a'' 31 = 2"
  "shift_hash ''b'' 31 = 18" "shift_hash ''c'' 31 = 3" "shift_hash ''d'' 31 = 19"
  "shift_hash ''e'' 31 = 4" "shift_hash ''g'' 31 = 5" "shift_hash ''h'' 31 = 21"
  by (simp_all add: shift_hash_def upower_def char_unsigned_def)




lemma power_2: "power 2 4 = 16" "power 2 5 = 32"
  by (simp_all add: power_def int32_def eval_nat_numeral)

lemma getsize_13: "getsize_loop 13 4 0 = 31"
  by (subst getsize_loop.simps) (simp add: MAX_IDX_def delta_def power_2)

lemma int32_13: "int32 13 = 13"
  by (simp add: int32_def)

lemmas table_eval = hash_values_13 hash_values_31 getsize_13 int32_13 ht_insert.simps rehash.simps
  ht_link_def ht_search_def ht_init_def loaded_def getsize_def Let_def key_strcmp_def
  INITIAL_DELTA_INDEX_def nine_entries_def nine_table_def nine_rehashed_def

lemma strcmp_refl [simp]: "strcmp s s = 0"
  by (induction s) auto

lemma chain_append_found:
  assumes "cmp key key = 0" "chain_search cmp key c = Inr None"
  shows "\<exists>c'. chain_append c key v = Inr c' \<and> chain_search cmp key c' = Inr (Some v)"
  using assms
proof (induction c)
  case NULL
  then show ?case by simp
next
  case Indeterminate
  then show ?case by simp
next
  case (Entry k w nxt)
  then show ?case by (auto split: if_splits)
qed

lemma ht_link_found:
  assumes "ht_cmp ht key key = 0" "ht_search ht key = Inr None"
  shows "\<exists>ht'. ht_link fresh ht key v = Inr (EXIT_SUCCESS, ht') \<and> ht_search ht' key = Inr (Some v)
           \<and> ht_size ht' = ht_size ht"
proof -
  let ?k = "ht_hash ht key (ht_size ht)"
  have k: "?k < length (ht_table ht)" and cs: "chain_search (ht_cmp ht) key (ht_table ht ! ?k) = Inr None"
    using assms(2) by (auto simp: ht_search_def Let_def split: if_splits)
  show ?thesis
  proof (cases "ht_table ht ! ?k = NULL")
    case True
    then show ?thesis
      using assms k by (simp add: ht_link_def ht_search_def Let_def)
  next
    case False
    obtain c' where c': "chain_append (ht_table ht ! ?k) key v = Inr c'"
      and f: "chain_search (ht_cmp ht) key c' = Inr (Some v)"
      using chain_append_found [OF assms(1) cs] by blast
    show ?thesis
      using assms k False c' f by (simp add: ht_link_def ht_search_def Let_def)
  qed
qed











subsection \<open>Insertion of a key that is present\<close>




subsection \<open>A name of the enclosing scope\<close>

lemmas sym_eval = find_name_def insert_name_def open_subroutine_def close_subroutine_def deref_def
  new_table_def init_symbol_table_def initial_symtab_def shadow_state_def global_x_table_def
  outer_x_def inner_x_def callable_f_def mk_idprop_def find_after_def
  IS_CALLABLE_TYPE_def IS_VARIABLE_def SET_AS_CALLABLE_def TYPE_INTEGER_def TYPE_BOOLEAN_def
  TYPE_NONE_def

lemma ht_link_absent:
  assumes "ht_cmp ht key key = 0" "ht_search ht key = Inr None" "\<not> loaded ht"
  shows "\<exists>ht'. ht_insert fuel fresh ht key v = Inr (EXIT_SUCCESS, ht')
           \<and> ht_search ht' key = Inr (Some v)"
  using ht_link_found [OF assms(1,2), of fresh v] assms(3)
  by (subst ht_insert.simps) auto

text \<open>
  C8.  In the scope of a subroutine, with \<open>ident\<close> absent from the table of
  the scope and bound to the record \<open>q\<close>, not callable, in the saved table,
  \<^verbatim>\<open>find_name\<close> returns \<^verbatim>\<open>FALSE\<close> and leaves \<open>q\<close> in the pointer it was given,
  whatever record \<open>p\<close> the pointer held.  \<^verbatim>\<open>insert_name\<close> passes the address of
  its own parameter, so what it then hands to \<^verbatim>\<open>ht_insert\<close>, and tests for
  the offset, is \<open>q\<close> and not the \<open>p\<close> of its caller; after the insertion
  \<^verbatim>\<open>find_name\<close> finds \<open>q\<close> under \<open>ident\<close> in the scope.
\<close>

theorem find_name_leaves_outer_record:
  "table st = Some a \<and> heap st a = Some ht \<and> ht_search ht ident = Inr None
   \<and> saved_table st = Some b \<and> heap st b = Some sht \<and> ht_search sht ident = Inr (Some q)
   \<and> \<not> IS_CALLABLE_TYPE (vtype q) \<longrightarrow>
     find_name st ident (Some p) = Inr (False, Some q)
     \<and> insert_name fuel st ident p =
          (case ht_insert fuel (uninit_next st) ht ident q of
             Inl e \<Rightarrow> Inl e
           | Inr (status, ht') \<Rightarrow>
               Inr (True,
                    if IS_VARIABLE (vtype q)
                    then st\<lparr>heap := (heap st)(a := Some ht'),
                            curr_offset := (curr_offset st + 1) mod 4294967296\<rparr>
                    else st\<lparr>heap := (heap st)(a := Some ht')\<rparr>))
     \<and> (ht_cmp ht ident ident = 0 \<and> \<not> loaded ht \<longrightarrow>
          (\<exists>st'. insert_name fuel st ident p = Inr (True, st')
             \<and> find_name st' ident None = Inr (True, Some q)))"
proof
  assume h: "table st = Some a \<and> heap st a = Some ht \<and> ht_search ht ident = Inr None
   \<and> saved_table st = Some b \<and> heap st b = Some sht \<and> ht_search sht ident = Inr (Some q)
   \<and> \<not> IS_CALLABLE_TYPE (vtype q)"
  have f: "find_name st ident (Some p) = Inr (False, Some q)"
    using h by (simp add: find_name_def deref_def)
  have i: "insert_name fuel st ident p =
          (case ht_insert fuel (uninit_next st) ht ident q of
             Inl e \<Rightarrow> Inl e
           | Inr (status, ht') \<Rightarrow>
               Inr (True,
                    if IS_VARIABLE (vtype q)
                    then st\<lparr>heap := (heap st)(a := Some ht'),
                            curr_offset := (curr_offset st + 1) mod 4294967296\<rparr>
                    else st\<lparr>heap := (heap st)(a := Some ht')\<rparr>))"
    using h f by (simp add: insert_name_def deref_def Let_def split: sum.splits prod.splits)
  have g: "\<exists>st'. insert_name fuel st ident p = Inr (True, st')
             \<and> find_name st' ident None = Inr (True, Some q)"
    if c: "ht_cmp ht ident ident = 0 \<and> \<not> loaded ht"
  proof -
    obtain ht' where ins: "ht_insert fuel (uninit_next st) ht ident q = Inr (EXIT_SUCCESS, ht')"
      and s: "ht_search ht' ident = Inr (Some q)"
      using ht_link_absent [of ht ident fuel "uninit_next st" q] c h by blast
    show ?thesis
      using i ins s h by (auto simp: find_name_def deref_def)
  qed
  show "find_name st ident (Some p) = Inr (False, Some q)
     \<and> insert_name fuel st ident p =
          (case ht_insert fuel (uninit_next st) ht ident q of
             Inl e \<Rightarrow> Inl e
           | Inr (status, ht') \<Rightarrow>
               Inr (True,
                    if IS_VARIABLE (vtype q)
                    then st\<lparr>heap := (heap st)(a := Some ht'),
                            curr_offset := (curr_offset st + 1) mod 4294967296\<rparr>
                    else st\<lparr>heap := (heap st)(a := Some ht')\<rparr>))
     \<and> (ht_cmp ht ident ident = 0 \<and> \<not> loaded ht \<longrightarrow>
          (\<exists>st'. insert_name fuel st ident p = Inr (True, st')
             \<and> find_name st' ident None = Inr (True, Some q)))"
    using f i g by blast
qed

lemma shadow_facts:
  "table (shadow_state NULL) = Some 1"
  "heap (shadow_state NULL) 1 = Some (ht_init (3 / 4) shift_hash key_strcmp)"
  "saved_table (shadow_state NULL) = Some 0"
  "heap (shadow_state NULL) 0 = Some (global_x_table NULL)"
  "uninit_next (shadow_state NULL) = NULL"
  by (simp_all add: shadow_state_def)

lemma empty_table_search:
  "ht_search (ht_init (3 / 4) shift_hash key_strcmp :: (string, IDprop) HashTab) ''x'' = Inr None"
  by (simp add: ht_search_def ht_init_def hash_values_13 Let_def)

lemma global_x_table_search: "ht_search (global_x_table NULL) ''x'' = Inr (Some outer_x)"
  by (simp add: ht_search_def ht_init_def global_x_table_def hash_values_13 key_strcmp_def Let_def)

lemma empty_table_facts:
  "\<not> loaded (ht_init (3 / 4) shift_hash key_strcmp :: (string, IDprop) HashTab)"
  "ht_cmp (ht_init (3 / 4) shift_hash key_strcmp :: (string, IDprop) HashTab) ''x'' ''x'' = 0"
  "\<not> IS_CALLABLE_TYPE (vtype outer_x)"
  by (simp_all add: ht_init_def key_strcmp_def loaded_def sym_eval)

lemma inner_x_not_outer_x: "inner_x \<noteq> outer_x"
  by (simp add: inner_x_def outer_x_def mk_idprop_def TYPE_BOOLEAN_def TYPE_INTEGER_def TYPE_NONE_def)

theorem find_name_leaves_outer_record_witness:
  "table (shadow_state NULL) = Some 1
   \<and> heap (shadow_state NULL) 1 = Some (ht_init (3 / 4) shift_hash key_strcmp)
   \<and> ht_search (ht_init (3 / 4) shift_hash key_strcmp :: (string, IDprop) HashTab) ''x'' = Inr None
   \<and> saved_table (shadow_state NULL) = Some 0
   \<and> heap (shadow_state NULL) 0 = Some (global_x_table NULL)
   \<and> ht_search (global_x_table NULL) ''x'' = Inr (Some outer_x)
   \<and> \<not> IS_CALLABLE_TYPE (vtype outer_x)
   \<and> find_name (shadow_state NULL) ''x'' (Some inner_x) = Inr (False, Some outer_x)
   \<and> ht_cmp (ht_init (3 / 4) shift_hash key_strcmp :: (string, IDprop) HashTab) ''x'' ''x'' = 0
   \<and> \<not> loaded (ht_init (3 / 4) shift_hash key_strcmp :: (string, IDprop) HashTab)
   \<and> (\<exists>st'. insert_name 0 (shadow_state NULL) ''x'' inner_x = Inr (True, st')
          \<and> find_name st' ''x'' None = Inr (True, Some outer_x))
   \<and> inner_x \<noteq> outer_x"
proof -
  note t = find_name_leaves_outer_record [where st = "shadow_state NULL" and a = 1 and b = 0
      and ht = "ht_init (3 / 4) shift_hash key_strcmp" and sht = "global_x_table NULL"
      and ident = "''x''" and q = outer_x and p = inner_x and fuel = 0]
  have h: "table (shadow_state NULL) = Some 1
     \<and> heap (shadow_state NULL) 1 = Some (ht_init (3 / 4) shift_hash key_strcmp)
     \<and> ht_search (ht_init (3 / 4) shift_hash key_strcmp :: (string, IDprop) HashTab) ''x'' = Inr None
     \<and> saved_table (shadow_state NULL) = Some 0
     \<and> heap (shadow_state NULL) 0 = Some (global_x_table NULL)
     \<and> ht_search (global_x_table NULL) ''x'' = Inr (Some outer_x)
     \<and> \<not> IS_CALLABLE_TYPE (vtype outer_x)"
    using shadow_facts empty_table_search global_x_table_search empty_table_facts by simp
  have c: "find_name (shadow_state NULL) ''x'' (Some inner_x) = Inr (False, Some outer_x)"
    and d: "ht_cmp (ht_init (3 / 4) shift_hash key_strcmp :: (string, IDprop) HashTab) ''x'' ''x'' = 0
        \<and> \<not> loaded (ht_init (3 / 4) shift_hash key_strcmp :: (string, IDprop) HashTab) \<longrightarrow>
      (\<exists>st'. insert_name 0 (shadow_state NULL) ''x'' inner_x = Inr (True, st')
          \<and> find_name st' ''x'' None = Inr (True, Some outer_x))"
    using t h by blast+
  show ?thesis
    using h c d empty_table_facts inner_x_not_outer_x by blast
qed

subsection \<open>A name inserted in the scope of a subroutine\<close>

lemma shadow_state_built:
  "run_sym_ops 0 (init_symbol_table (initial_symtab NULL))
       [Insert_name ''x'' outer_x, Open_subroutine ''f'' callable_f] = Inr ([True, True], shadow_state NULL)"
  by (simp add: sym_eval table_eval)

text \<open>
  C2 does not hold of the code.  The interface is called in this order: the
  variable \<open>x\<close> is inserted in the global scope, the scope of the function
  \<open>f\<close> is opened, and \<open>x\<close> is inserted in it with the record \<open>inner_x\<close>.
  All three calls return \<^verbatim>\<open>TRUE\<close>, and \<^verbatim>\<open>find_name\<close> then finds \<open>x\<close> in the
  scope of \<open>f\<close>, bound to the record of the global \<open>x\<close> and not to
  \<open>inner_x\<close>.
\<close>

theorem insert_name_in_scope_binds_outer_record:
  "find_after 0 (init_symbol_table (initial_symtab NULL))
       [Insert_name ''x'' outer_x, Open_subroutine ''f'' callable_f, Insert_name ''x'' inner_x] ''x''
     = Inr ([True, True, True], True, Some outer_x)
   \<and> outer_x \<noteq> inner_x"
  by (simp add: sym_eval table_eval)

end
